theory Spec2Isabelle
  imports Main
begin

section \<open>Python values and errors\<close>

text \<open>
  The reranker of \<^verbatim>\<open>src/inference/rank_model.py\<close> is modelled as pure functions.
  Every exception the Python can raise is a value of \<open>error\<close>; a function that can raise
  returns \<open>error + 'a\<close> with \<open>Inl\<close> for the exception.
\<close>

datatype error =
    IndexError | TypeError | ValueError | KeyError | AssertionError
  | RuntimeError | AttributeError | BackendError

fun bind_result :: "error + 'a \<Rightarrow> ('a \<Rightarrow> error + 'b) \<Rightarrow> error + 'b" where
  "bind_result (Inl e) f = Inl e"
| "bind_result (Inr x) f = f x"

text \<open>A list comprehension whose body can raise: the first exception aborts it.\<close>

fun map_result :: "('a \<Rightarrow> error + 'b) \<Rightarrow> 'a list \<Rightarrow> error + 'b list" where
  "map_result f [] = Inr []"
| "map_result f (x # xs) =
     bind_result (f x) (\<lambda>y. bind_result (map_result f xs) (\<lambda>ys. Inr (y # ys)))"

text \<open>
  Python and torch indexing \<open>xs[i]\<close>: a negative index counts from the end, an index
  outside \<open>[-len, len)\<close> raises IndexError.
\<close>

definition py_index :: "'a list \<Rightarrow> int \<Rightarrow> error + 'a" where
  "py_index xs i =
     (if 0 \<le> i \<and> i < int (length xs) then Inr (xs ! nat i)
      else if - int (length xs) \<le> i \<and> i < 0 then Inr (xs ! nat (int (length xs) + i))
      else Inl IndexError)"

section \<open>The score extractor\<close>

text \<open>
  A tensor of shape \<open>(B, L, ...)\<close> is the list of its \<open>B\<close> rows, each the list of its
  \<open>L\<close> entries. \<open>has_shape B L t\<close> says that \<open>t\<close> is such a tensor.
\<close>

definition has_shape :: "nat \<Rightarrow> nat \<Rightarrow> 'a list list \<Rightarrow> bool" where
  "has_shape B L t = (length t = B \<and> list_all (\<lambda>row. length row = L) t)"

definition is_mask :: "int list list \<Rightarrow> bool" where
  "is_mask m = list_all (list_all (\<lambda>x. x = 0 \<or> x = 1)) m"

text \<open>
  \<^verbatim>\<open>
  def last_logit_pool(logits, attention_mask):
      left_padding = (attention_mask[:, -1].sum() == attention_mask.shape[0])
      if left_padding:
          return logits[:, -1]
      else:
          sequence_lengths = attention_mask.sum(dim=1) - 1
          batch_size = logits.shape[0]
          return torch.stack([logits[i, sequence_lengths[i]] for i in range(batch_size)], dim=0)
  \<close>
  \<open>torch.stack\<close> of an empty list raises RuntimeError.
\<close>

definition last_column :: "'a list list \<Rightarrow> error + 'a list" where
  "last_column t = map_result (\<lambda>row. py_index row (- 1)) t"

definition left_padding :: "int list list \<Rightarrow> error + bool" where
  "left_padding attention_mask =
     bind_result (last_column attention_mask)
       (\<lambda>col. Inr (sum_list col = int (length attention_mask)))"

definition last_logit_pool :: "'a list list \<Rightarrow> int list list \<Rightarrow> error + 'a list" where
  "last_logit_pool logits attention_mask =
     bind_result (left_padding attention_mask) (\<lambda>left.
       if left then last_column logits
       else
         let sequence_lengths = map (\<lambda>row. sum_list row - 1) attention_mask;
             batch_size = length logits
         in if batch_size = 0 then Inl RuntimeError
            else map_result (\<lambda>i.
                   bind_result (py_index sequence_lengths (int i)) (\<lambda>pos.
                   bind_result (py_index logits (int i)) (\<lambda>row.
                   py_index row pos)))
                 [0..<batch_size])"

section \<open>The tokenizer\<close>

text \<open>
  The tokenizer is an external collaborator. Its vocabulary is a parameter: \<open>encode\<close> is
  \<^verbatim>\<open>tokenizer(text, add_special_tokens=False)['input_ids']\<close> without truncation. The
  record is the tokenizer as the constructors leave it (a pad token id is set, falling
  back to the unknown token's). What the tokenizer library does with these ids
  (truncation to a maximum length, \<^verbatim>\<open>prepare_for_model\<close>, \<^verbatim>\<open>pad\<close>) does not depend
  on the vocabulary and is written out below.
\<close>

datatype side = LeftSide | RightSide

record tokenizer =
  encode :: "string \<Rightarrow> int list"
  bos_token_id :: int
  pad_token_id :: int
  padding_side :: side
  truncation_side :: side

text \<open>Removing \<open>n\<close> tokens from the truncation side of a sequence.\<close>

definition remove_tokens :: "side \<Rightarrow> nat \<Rightarrow> 'a list \<Rightarrow> 'a list" where
  "remove_tokens s n xs =
     (case s of RightSide \<Rightarrow> take (length xs - n) xs | LeftSide \<Rightarrow> drop n xs)"

text \<open>
  \<^verbatim>\<open>tokenizer(text, add_special_tokens=False, max_length=n, truncation=True)['input_ids']\<close>:
  a sequence longer than \<open>n\<close> loses its excess tokens.
\<close>

definition tokenize :: "tokenizer \<Rightarrow> string \<Rightarrow> nat \<Rightarrow> int list" where
  "tokenize tk text max_length =
     remove_tokens (truncation_side tk) (length (encode tk text) - max_length) (encode tk text)"

text \<open>
  \<^verbatim>\<open>tokenizer.prepare_for_model(ids, pair_ids, truncation='only_second', max_length=m,
  padding=False, add_special_tokens=False)['input_ids']\<close>. The library truncates when
  \<^verbatim>\<open>max_length and total_len > max_length\<close>, asking for
  \<open>total_len - max_length\<close> tokens to be removed; with \<open>only_second\<close> they are removed
  from the second sequence if it is strictly longer than that, and otherwise the library
  logs an error and removes nothing.
\<close>

definition prepare_for_model :: "tokenizer \<Rightarrow> int list \<Rightarrow> int list \<Rightarrow> int \<Rightarrow> int list" where
  "prepare_for_model tk ids pair_ids max_length =
     (let total_len = int (length ids) + int (length pair_ids) in
      if max_length \<noteq> 0 \<and> total_len > max_length then
        (let num_tokens_to_remove = total_len - max_length in
         if int (length pair_ids) > num_tokens_to_remove
         then ids @ remove_tokens (truncation_side tk) (nat num_tokens_to_remove) pair_ids
         else ids @ pair_ids)
      else ids @ pair_ids)"

section \<open>The sequence builder\<close>

record feature =
  input_ids :: "int list"
  attention_mask :: "int list"
  labels :: "int list option"

definition default_prompt :: string where
  "default_prompt = ''Predict whether passage B contains an answer to query A.''"

definition sep :: string where
  "sep = [CHR 0x0A]"

text \<open>
  \<^verbatim>\<open>DatasetForReranker.__init__\<close>: the prompt (the default one when \<open>prompt is None\<close>) and
  the separator are tokenized once, and
  \<^verbatim>\<open>self.encode_max_length = self.max_len - len(self.sep_inputs) - len(self.prompt_inputs)\<close>.
\<close>

record dataset_for_reranker =
  ds_tokenizer :: tokenizer
  dataset :: "(string \<times> string) list"
  max_len :: nat
  query_prefix :: string
  passage_prefix :: string
  prompt_inputs :: "int list"
  sep_inputs :: "int list"
  encode_max_length :: int

definition DatasetForReranker ::
  "(string \<times> string) list \<Rightarrow> tokenizer \<Rightarrow> nat \<Rightarrow> string option \<Rightarrow> dataset_for_reranker" where
  "DatasetForReranker data tk max_length prompt =
     (let prompt' = (case prompt of None \<Rightarrow> default_prompt | Some p \<Rightarrow> p);
          prompt_ids = encode tk prompt';
          sep_ids = encode tk sep
      in \<lparr> ds_tokenizer = tk, dataset = data, max_len = max_length,
           query_prefix = ''A: '', passage_prefix = ''B: '',
           prompt_inputs = prompt_ids, sep_inputs = sep_ids,
           encode_max_length = int max_length - int (length sep_ids) - int (length prompt_ids) \<rparr>)"

text \<open>
  \<^verbatim>\<open>DatasetForReranker.__getitem__\<close> on one (query, passage) pair: the item, the length of
  bos + query + separator and the length of separator + prompt.
\<close>

definition getitem :: "dataset_for_reranker \<Rightarrow> string \<times> string \<Rightarrow> feature \<times> nat \<times> nat" where
  "getitem ds pair =
     (let tk = ds_tokenizer ds;
          query = query_prefix ds @ fst pair;
          passage = passage_prefix ds @ snd pair;
          query_inputs = tokenize tk query 32;
          passage_inputs = tokenize tk passage (max_len ds);
          item_ids = prepare_for_model tk (bos_token_id tk # query_inputs)
                       (sep_inputs ds @ passage_inputs) (encode_max_length ds);
          ids = item_ids @ sep_inputs ds @ prompt_inputs ds
      in (\<lparr> input_ids = ids, attention_mask = replicate (length ids) 1, labels = None \<rparr>,
          length (bos_token_id tk # query_inputs @ sep_inputs ds),
          length (sep_inputs ds @ prompt_inputs ds)))"

definition dataset_item :: "dataset_for_reranker \<Rightarrow> int \<Rightarrow> error + feature \<times> nat \<times> nat" where
  "dataset_item ds i = bind_result (py_index (dataset ds) i) (\<lambda>pair. Inr (getitem ds pair))"

text \<open>
  The same construction inside the synchronous loop of \<^verbatim>\<open>compute_score\<close> (lines 314
  to 348), for one pair of the batch. \<open>prompt_inputs\<close>, \<open>sep_inputs\<close> and
  \<open>encode_max_length\<close> are computed once before the loop (lines 302 to 310).
\<close>

definition sync_item ::
  "tokenizer \<Rightarrow> nat \<Rightarrow> int list \<Rightarrow> int list \<Rightarrow> int \<Rightarrow> string \<times> string
     \<Rightarrow> feature \<times> nat \<times> nat" where
  "sync_item tk max_length prompt_ids sep_ids encode_max pair =
     (let query_inputs = tokenize tk (''A: '' @ fst pair) 32;
          passage_inputs = tokenize tk (''B: '' @ snd pair) max_length;
          item_ids = prepare_for_model tk (bos_token_id tk # query_inputs)
                       (sep_ids @ passage_inputs) encode_max;
          ids = item_ids @ sep_ids @ prompt_ids
      in (\<lparr> input_ids = ids, attention_mask = replicate (length ids) 1, labels = None \<rparr>,
          length (bos_token_id tk # query_inputs @ sep_ids),
          length (sep_ids @ prompt_ids)))"

section \<open>The batch collator\<close>

text \<open>The collated tensors: \<open>input_ids\<close>, \<open>attention_mask\<close> and, when present, \<open>labels\<close>.\<close>

record batch_encoding =
  t_input_ids :: "int list list"
  t_attention_mask :: "int list list"
  t_labels :: "int list list option"

fun max_list :: "nat list \<Rightarrow> nat" where
  "max_list [] = 0"
| "max_list (x # xs) = max x (max_list xs)"

definition pad_side :: "side \<Rightarrow> 'a list \<Rightarrow> 'a list \<Rightarrow> 'a list" where
  "pad_side s row remainder =
     (case s of RightSide \<Rightarrow> row @ remainder | LeftSide \<Rightarrow> remainder @ row)"

definition rectangular :: "'a list list \<Rightarrow> bool" where
  "rectangular rows =
     (case rows of [] \<Rightarrow> True | r # _ \<Rightarrow> list_all (\<lambda>row. length row = length r) rows)"

text \<open>\<^verbatim>\<open>[feature["labels"] for feature in features]\<close>: a feature without labels raises KeyError.\<close>

definition feature_labels :: "feature list \<Rightarrow> error + int list list" where
  "feature_labels features =
     map_result (\<lambda>f. case labels f of None \<Rightarrow> Inl KeyError | Some l \<Rightarrow> Inr l) features"

text \<open>
  \<^verbatim>\<open>tokenizer.pad(features, padding=True, max_length=m, pad_to_multiple_of=8,
  return_tensors='pt')\<close>. With \<open>padding=True\<close> the library pads to the longest sequence
  of the batch and ignores \<open>max_length\<close> (the collator silences the library's warning
  that says so); the length is rounded up by
  \<^verbatim>\<open>if max_length % pad_to_multiple_of != 0:
      max_length = ((max_length // pad_to_multiple_of) + 1) * pad_to_multiple_of\<close>.
  Each row gets \<open>max_length - len(input_ids)\<close> pad tokens, its attention mask as many
  zeros, on the padding side. The keys are those of the first feature (the empty list has
  none: IndexError). Building a tensor from rows of different lengths raises ValueError.
\<close>

definition round_up_to_multiple :: "nat \<Rightarrow> nat \<Rightarrow> nat" where
  "round_up_to_multiple pad_to_multiple_of max_length =
     (if max_length mod pad_to_multiple_of \<noteq> 0
      then (max_length div pad_to_multiple_of + 1) * pad_to_multiple_of else max_length)"

definition tokenizer_pad ::
  "tokenizer \<Rightarrow> feature list \<Rightarrow> nat \<Rightarrow> nat \<Rightarrow> error + batch_encoding" where
  "tokenizer_pad tk features max_length pad_to_multiple_of =
     (case features of
        [] \<Rightarrow> Inl IndexError
      | first # _ \<Rightarrow>
          bind_result
            (case labels first of None \<Rightarrow> Inr None
             | Some _ \<Rightarrow> bind_result (feature_labels features) (\<lambda>ls. Inr (Some ls)))
            (\<lambda>labs.
               let longest = max_list (map (\<lambda>f. length (input_ids f)) features);
                   padded_length = round_up_to_multiple pad_to_multiple_of longest;
                   ids = map (\<lambda>f. pad_side (padding_side tk) (input_ids f)
                               (replicate (padded_length - length (input_ids f))
                                  (pad_token_id tk)))
                           features;
                   masks = map (\<lambda>f. pad_side (padding_side tk) (attention_mask f)
                                 (replicate (padded_length - length (input_ids f)) 0))
                             features
               in if rectangular masks \<and>
                     (case labs of None \<Rightarrow> True | Some ls \<Rightarrow> rectangular ls)
                  then Inr \<lparr> t_input_ids = ids, t_attention_mask = masks, t_labels = labs \<rparr>
                  else Inl ValueError))"

text \<open>
  What \<^verbatim>\<open>collater.__call__\<close> receives: the synchronous loop passes the list
  \<^verbatim>\<open>[features, query_lengths, prompt_lengths]\<close>; a \<^verbatim>\<open>DataLoader\<close> passes the list of
  the samples of one batch, each the triple that \<^verbatim>\<open>__getitem__\<close> returns.
\<close>

datatype collater_data =
    Columns "feature list" "nat list" "nat list"
  | Samples "(feature \<times> nat \<times> nat) list"

text \<open>
  The label padding of the collator (lines 138 to 160), for labels that are lists:
  \<^verbatim>\<open>"labels" in features[0].keys()\<close> decides, a later feature without labels raises
  KeyError, and \<open>features[0]\<close> of the empty list raises IndexError.
\<close>

definition pad_labels :: "tokenizer \<Rightarrow> feature list \<Rightarrow> error + feature list" where
  "pad_labels tk features =
     (case features of
        [] \<Rightarrow> Inl IndexError
      | first # _ \<Rightarrow>
          (case labels first of
             None \<Rightarrow> Inr features
           | Some _ \<Rightarrow>
               bind_result (feature_labels features) (\<lambda>ls.
                 let max_label_length = (max_list (map length ls) + 8 - 1) div 8 * 8
                 in Inr (map (\<lambda>(f, l). f \<lparr> labels :=
                          Some (pad_side (padding_side tk) l
                                 (replicate (max_label_length - length l) (- 100))) \<rparr>)
                        (zip features ls)))))"

text \<open>
  \<^verbatim>\<open>collater.__call__(data)\<close> takes \<open>features = data[0]\<close>,
  \<open>query_lengths = data[1]\<close>, \<open>prompt_lengths = data[2]\<close>. On a list of samples, \<open>data[1]\<close>
  or \<open>data[2]\<close> raises IndexError when the batch has fewer than three samples; with three
  or more, \<open>features\<close> is the first sample, a triple whose second component is an integer,
  and reading a key of it (in the label loop or in \<^verbatim>\<open>tokenizer.pad\<close>) raises TypeError.
\<close>

definition collater ::
  "tokenizer \<Rightarrow> nat \<Rightarrow> collater_data \<Rightarrow> error + batch_encoding \<times> nat list \<times> nat list" where
  "collater tk max_length data =
     (case data of
        Columns features query_lengths prompt_lengths \<Rightarrow>
          bind_result (pad_labels tk features) (\<lambda>features'.
          bind_result (tokenizer_pad tk features' max_length 8) (\<lambda>collected.
          Inr (collected, query_lengths, prompt_lengths)))
      | Samples samples \<Rightarrow>
          (if length samples < 3 then Inl IndexError else Inl TypeError))"

section \<open>The scoring backend and the orchestrator\<close>

text \<open>
  The backend is an opaque function of the batch and the per-example markers; the
  compression hints are passed through. Its output has \<open>logits\<close> (a tensor
  \<open>(B, L, V)\<close>, or in layer-wise mode a list of tensors \<open>(B, L)\<close>, one per exit layer)
  and, in layer-wise mode, \<open>attention_masks\<close> (one mask per exit layer). Scores are
  values of an arbitrary type \<open>'a\<close>: the pipeline only moves them. A backend failure is
  an \<open>Inl\<close>. Moving tensors between devices, the conversion of the scores to Python
  floats and the progress bars are left out: they change neither shapes nor order.
\<close>

record model_input =
  mi_inputs :: batch_encoding
  mi_compress_layer :: "int list"
  mi_compress_ratio :: int
  mi_query_lengths :: "nat list"
  mi_prompt_lengths :: "nat list"
  mi_cutoff_layers :: "int list option"

record 'a model_output =
  logits :: "'a list list list"
  attention_masks :: "int list list list option"

record 'a reranker =
  tokenizer :: tokenizer
  model :: "model_input \<Rightarrow> error + 'a model_output"
  yes_loc :: int
  compress_ratio :: int
  compress_layer :: "int list"
  cutoff_layers :: "int list option"
  layer_wise :: bool

definition call_model ::
  "'a reranker \<Rightarrow> batch_encoding \<Rightarrow> nat list \<Rightarrow> nat list \<Rightarrow> error + 'a model_output" where
  "call_model self inputs query_lengths prompt_lengths =
     model self \<lparr> mi_inputs = inputs, mi_compress_layer = compress_layer self,
                  mi_compress_ratio = compress_ratio self, mi_query_lengths = query_lengths,
                  mi_prompt_lengths = prompt_lengths, mi_cutoff_layers = cutoff_layers self \<rparr>"

text \<open>
  \<open>all_scores\<close> is a list of scores, or in layer-wise mode a list of lists of scores, one
  per exit layer. It starts as the empty list.
\<close>

datatype 'a scores = Scores "'a list" | LayerScores "'a list list"

definition init_scores :: "'a reranker \<Rightarrow> 'a scores" where
  "init_scores self = (if layer_wise self then LayerScores [] else Scores [])"

text \<open>
  The body shared by both loops (lines 284 to 300 and 368 to 384): pool each layer
  with its own mask and extend the per-layer lists, or pool the final logits with the
  batch's mask and read the entry of the decision token. The branches on a list of the
  other mode's shape are not reachable from \<open>init_scores\<close>.
\<close>

definition extend_layers :: "'a list list \<Rightarrow> 'a list list \<Rightarrow> error + 'a list list" where
  "extend_layers all_scores scores =
     (if length scores \<le> length all_scores
      then Inr (map (\<lambda>i. all_scores ! i @ (if i < length scores then scores ! i else []))
                 [0..<length all_scores])
      else Inl IndexError)"

text \<open>Lines 369 to 372: the pooled scores of every exit layer, each with its own mask.\<close>

definition layer_scores :: "'a model_output \<Rightarrow> error + 'a list list" where
  "layer_scores outputs =
     map_result (\<lambda>i.
        bind_result (py_index (logits outputs) (int i)) (\<lambda>layer_logits.
        bind_result (case attention_masks outputs of None \<Rightarrow> Inl AttributeError
                     | Some masks \<Rightarrow> py_index masks (int i)) (\<lambda>layer_mask.
        last_logit_pool layer_logits layer_mask)))
      [0..<length (logits outputs)]"

text \<open>
  Lines 379 to 383: the final logits pooled with the batch's mask, then the entry of the
  decision token of every row.
\<close>

definition standard_scores ::
  "'a reranker \<Rightarrow> 'a model_output \<Rightarrow> int list list \<Rightarrow> error + 'a list" where
  "standard_scores self outputs input_mask =
     bind_result (last_logit_pool (logits outputs) input_mask) (\<lambda>pooled.
     map_result (\<lambda>row. py_index row (yes_loc self)) pooled)"

definition collect_scores ::
  "'a reranker \<Rightarrow> 'a scores \<Rightarrow> 'a model_output \<Rightarrow> int list list \<Rightarrow> error + 'a scores" where
  "collect_scores self all_scores outputs input_mask =
     (if layer_wise self then
        bind_result (layer_scores outputs) (\<lambda>scores.
          case all_scores of
            Scores _ \<Rightarrow> Inl TypeError
          | LayerScores layers \<Rightarrow>
              bind_result
                (extend_layers
                   (if length layers = 0 then replicate (length scores) [] else layers) scores)
                (\<lambda>layers'. Inr (LayerScores layers')))
      else
        bind_result (standard_scores self outputs input_mask) (\<lambda>scores.
          case all_scores of
            Scores xs \<Rightarrow> Inr (Scores (xs @ scores))
          | LayerScores _ \<Rightarrow> Inl TypeError))"

text \<open>
  \<^verbatim>\<open>range(0, len(xs), batch_size)\<close> with the slices \<open>xs[start:start + batch_size]\<close>, and
  the batches of a \<^verbatim>\<open>DataLoader(shuffle=False, drop_last=False)\<close>. A batch size of 0
  raises ValueError in both; the callers check it.
\<close>

function batches :: "nat \<Rightarrow> 'b list \<Rightarrow> 'b list list" where
  "batches batch_size xs =
     (if batch_size = 0 \<or> xs = [] then []
      else take batch_size xs # batches batch_size (drop batch_size xs))"
  by pat_completeness auto
termination
  by (relation "measure (\<lambda>(n, xs). length xs)") auto

declare batches.simps [simp del]

text \<open>The synchronous path (lines 301 to 384).\<close>

definition sync_batch_inputs ::
  "'a reranker \<Rightarrow> nat \<Rightarrow> int list \<Rightarrow> int list \<Rightarrow> int \<Rightarrow> (string \<times> string) list
     \<Rightarrow> error + batch_encoding \<times> nat list \<times> nat list" where
  "sync_batch_inputs self max_length prompt_ids sep_ids encode_max batch_sentences =
     (let items = map (sync_item (tokenizer self) max_length prompt_ids sep_ids encode_max)
                    batch_sentences;
          batch_inputs = map fst items;
          query_lengths = map (\<lambda>item. fst (snd item)) items;
          prompt_lengths = map (\<lambda>item. snd (snd item)) items
      in bind_result
           (collater (tokenizer self) max_length
              (Columns (map (\<lambda>item. \<lparr> input_ids = input_ids item,
                                       attention_mask = attention_mask item, labels = None \<rparr>)
                         batch_inputs)
                 query_lengths prompt_lengths))
           (\<lambda>collated. Inr (fst collated, query_lengths, prompt_lengths)))"

definition sync_forward ::
  "'a reranker \<Rightarrow> nat \<Rightarrow> int list \<Rightarrow> int list \<Rightarrow> int \<Rightarrow> (string \<times> string) list
     \<Rightarrow> error + batch_encoding \<times> 'a model_output" where
  "sync_forward self max_length prompt_ids sep_ids encode_max batch_sentences =
     bind_result (sync_batch_inputs self max_length prompt_ids sep_ids encode_max batch_sentences)
       (\<lambda>b. bind_result (call_model self (fst b) (fst (snd b)) (snd (snd b)))
         (\<lambda>outputs. Inr (fst b, outputs)))"

fun sync_loop ::
  "'a reranker \<Rightarrow> nat \<Rightarrow> int list \<Rightarrow> int list \<Rightarrow> int \<Rightarrow> 'a scores
     \<Rightarrow> (string \<times> string) list list \<Rightarrow> error + 'a scores" where
  "sync_loop self max_length prompt_ids sep_ids encode_max all_scores [] = Inr all_scores"
| "sync_loop self max_length prompt_ids sep_ids encode_max all_scores (batch_sentences # rest) =
     bind_result (sync_forward self max_length prompt_ids sep_ids encode_max batch_sentences)
       (\<lambda>r. bind_result (collect_scores self all_scores (snd r) (t_attention_mask (fst r)))
         (\<lambda>all_scores'.
            sync_loop self max_length prompt_ids sep_ids encode_max all_scores' rest))"

definition sync_scores ::
  "'a reranker \<Rightarrow> (string \<times> string) list \<Rightarrow> nat \<Rightarrow> nat \<Rightarrow> string option
     \<Rightarrow> error + 'a scores" where
  "sync_scores self sentences_sorted batch_size max_length prompt =
     (let prompt' = default_prompt;
          prompt_ids = encode (tokenizer self) prompt';
          sep_ids = encode (tokenizer self) sep;
          encode_max = int max_length + int (length sep_ids) + int (length prompt_ids)
      in if batch_size = 0 then Inl ValueError
         else sync_loop self max_length prompt_ids sep_ids encode_max (init_scores self)
                (batches batch_size sentences_sorted))"

text \<open>
  The data loader path (lines 260 to 300): each batch of the loader is the list of the
  samples \<^verbatim>\<open>dataset[i]\<close>, handed to the collator.
\<close>

fun dataloader_loop ::
  "'a reranker \<Rightarrow> dataset_for_reranker \<Rightarrow> nat \<Rightarrow> 'a scores \<Rightarrow> int list list
     \<Rightarrow> error + 'a scores" where
  "dataloader_loop self ds max_length all_scores [] = Inr all_scores"
| "dataloader_loop self ds max_length all_scores (indices # rest) =
     bind_result (map_result (dataset_item ds) indices) (\<lambda>samples.
     bind_result (collater (tokenizer self) max_length (Samples samples)) (\<lambda>data.
     bind_result (call_model self (fst data) (fst (snd data)) (snd (snd data))) (\<lambda>outputs.
     bind_result (collect_scores self all_scores outputs (t_attention_mask (fst data)))
       (\<lambda>all_scores'. dataloader_loop self ds max_length all_scores' rest))))"

definition dataloader_scores ::
  "'a reranker \<Rightarrow> (string \<times> string) list \<Rightarrow> nat \<Rightarrow> nat \<Rightarrow> string option
     \<Rightarrow> error + 'a scores" where
  "dataloader_scores self sentences_sorted batch_size max_length prompt =
     (let ds = DatasetForReranker sentences_sorted (tokenizer self) max_length prompt
      in if batch_size = 0 then Inl ValueError
         else dataloader_loop self ds max_length (init_scores self)
                (batches batch_size (map int [0..<length sentences_sorted])))"

text \<open>
  The argument of \<^verbatim>\<open>compute_score\<close>: the assertion wants a list; a list whose first
  element is a string is one pair, wrapped into a list (and unpacked as a pair on line
  257); otherwise it is a list of pairs. \<open>sentence_pairs[0]\<close> raises IndexError on the
  empty list.
\<close>

datatype sentence_pairs =
    PairTuple string string
  | StrList "string list"
  | PairList "(string \<times> string) list"

definition normalize_pairs :: "sentence_pairs \<Rightarrow> error + (string \<times> string) list" where
  "normalize_pairs sentence_pairs =
     (case sentence_pairs of
        PairTuple q p \<Rightarrow> Inl AssertionError
      | StrList ss \<Rightarrow>
          (case ss of [] \<Rightarrow> Inl IndexError
           | _ \<Rightarrow> (case ss of [q, p] \<Rightarrow> Inr [(q, p)] | _ \<Rightarrow> Inl ValueError))
      | PairList ps \<Rightarrow> (case ps of [] \<Rightarrow> Inl IndexError | _ \<Rightarrow> Inr ps))"

text \<open>
  \<^verbatim>\<open>_text_length\<close> on a string: it is not a dict, has a length, and unless it is empty its
  first element is not an int, so the result is the sum of the lengths of its characters.
\<close>

definition text_length :: "string \<Rightarrow> int" where
  "text_length text =
     (if length text = 0 then int (length text) else sum_list (map (\<lambda>t. 1) text))"

text \<open>
  \<^verbatim>\<open>np.argsort\<close> is called with its default kind, which is not a stable sort: on equal
  keys the library chooses which sorting permutation it returns. The function is
  therefore a parameter \<open>np_argsort\<close> of \<^verbatim>\<open>compute_score\<close>; \<open>valid_argsort\<close> is what every
  such function does: it returns a permutation of the indices that sorts the keys.
\<close>

definition valid_argsort :: "(int list \<Rightarrow> nat list) \<Rightarrow> bool" where
  "valid_argsort np_argsort =
     (\<forall>keys. distinct (np_argsort keys) \<and> set (np_argsort keys) = {0..<length keys} \<and>
             sorted (map (\<lambda>i. keys ! i) (np_argsort keys)))"

definition length_sorted_idx :: "(int list \<Rightarrow> nat list) \<Rightarrow> (string \<times> string) list \<Rightarrow> nat list" where
  "length_sorted_idx np_argsort pairs =
     np_argsort (map (\<lambda>pair. - text_length (fst pair) - text_length (snd pair)) pairs)"

text \<open>
  \<^verbatim>\<open>[sentence_pairs[idx] for idx in length_sorted_idx]\<close>, and the list it is when every
  index is in range.
\<close>

definition sort_sentences ::
  "(string \<times> string) list \<Rightarrow> nat list \<Rightarrow> error + (string \<times> string) list" where
  "sort_sentences pairs idxs = map_result (\<lambda>idx. py_index pairs (int idx)) idxs"

definition sentences_sorted ::
  "(int list \<Rightarrow> nat list) \<Rightarrow> (string \<times> string) list \<Rightarrow> (string \<times> string) list" where
  "sentences_sorted np_argsort pairs =
     map (\<lambda>idx. pairs ! idx) (length_sorted_idx np_argsort pairs)"

text \<open>Lines 386 to 390: the scores are read at the positions \<open>np.argsort(length_sorted_idx)\<close>.\<close>

definition restore_order :: "'a reranker \<Rightarrow> 'a scores \<Rightarrow> nat list \<Rightarrow> error + 'a scores" where
  "restore_order self all_scores inverse_idx =
     (if layer_wise self then
        (case all_scores of
           LayerScores layers \<Rightarrow>
             bind_result
               (map_result (\<lambda>layer. map_result (\<lambda>idx. py_index layer (int idx)) inverse_idx) layers)
               (\<lambda>layers'. Inr (LayerScores layers'))
         | Scores _ \<Rightarrow> Inl TypeError)
      else
        (case all_scores of
           Scores xs \<Rightarrow>
             bind_result (map_result (\<lambda>idx. py_index xs (int idx)) inverse_idx)
               (\<lambda>xs'. Inr (Scores xs'))
         | LayerScores _ \<Rightarrow> Inl TypeError))"

text \<open>
  \<^verbatim>\<open>compute_score\<close>. The sigmoid normalization and the single-score shortcut after the
  reordering are commented out in the source (lines 392 to 396).
\<close>

definition collect_all ::
  "'a reranker \<Rightarrow> (string \<times> string) list \<Rightarrow> nat \<Rightarrow> nat \<Rightarrow> string option \<Rightarrow> bool
     \<Rightarrow> error + 'a scores" where
  "collect_all self sorted_pairs batch_size max_length prompt use_dataloader =
     (if use_dataloader then dataloader_scores self sorted_pairs batch_size max_length prompt
      else sync_scores self sorted_pairs batch_size max_length prompt)"

definition compute_score ::
  "(int list \<Rightarrow> nat list) \<Rightarrow> 'a reranker \<Rightarrow> sentence_pairs \<Rightarrow> nat \<Rightarrow> nat \<Rightarrow> string option
     \<Rightarrow> bool \<Rightarrow> bool \<Rightarrow> error + 'a scores" where
  "compute_score np_argsort self sentence_pairs batch_size max_length prompt normalize_arg
       use_dataloader =
     bind_result (normalize_pairs sentence_pairs) (\<lambda>pairs.
     bind_result (sort_sentences pairs (length_sorted_idx np_argsort pairs)) (\<lambda>sorted_pairs.
     bind_result
       (collect_all self sorted_pairs batch_size max_length prompt use_dataloader)
       (\<lambda>all_scores.
          restore_order self all_scores
            (np_argsort (map int (length_sorted_idx np_argsort pairs))))))"

section \<open>A concrete tokenizer\<close>

text \<open>
  A character-level tokenizer (one token per character, its code), padding and truncating
  on the right, on which the model is evaluated at concrete inputs.
\<close>

definition char_tokenizer :: tokenizer where
  "char_tokenizer =
     \<lparr> encode = map (\<lambda>c. int (of_char c :: nat)), bos_token_id = 1, pad_token_id = 0,
       padding_side = RightSide, truncation_side = RightSide \<rparr>"

text \<open>
  Two concrete backends over integer scores. \<open>prefix_sums\<close> gives, at each position of a
  row, the sum of the token ids up to that position. The standard backend returns it as
  the only vocabulary entry of each position; the layer-wise backend returns, for each of
  two exit layers, that sum times the layer number, with the batch's mask for both.
\<close>

definition prefix_sums :: "int list \<Rightarrow> int list" where
  "prefix_sums row = map (\<lambda>n. sum_list (take (Suc n) row)) [0..<length row]"

definition standard_backend :: "model_input \<Rightarrow> error + int model_output" where
  "standard_backend inp =
     Inr \<lparr> logits = map (\<lambda>row. map (\<lambda>x. [x]) (prefix_sums row)) (t_input_ids (mi_inputs inp)),
           attention_masks = None \<rparr>"


definition standard_reranker :: "int reranker" where
  "standard_reranker =
     \<lparr> tokenizer = char_tokenizer, model = standard_backend, yes_loc = 0, compress_ratio = 0,
       compress_layer = [], cutoff_layers = None, layer_wise = False \<rparr>"


text \<open>
  One sorting function, the stable one, on which the model is evaluated at concrete
  inputs.
\<close>

definition stable_argsort :: "int list \<Rightarrow> nat list" where
  "stable_argsort keys = sort_key (\<lambda>i. keys ! i) [0..<length keys]"

text \<open>
  The pairs of the concrete scenario of the specification with a third, short pair, and
  three pairs whose length order is a rotation of their input order.
\<close>

definition example_pairs :: "(string \<times> string) list" where
  "example_pairs =
     [(''what is X'', ''X is a protocol''),
      (''a very long query repeated many times'', ''short''),
      (''q'', ''p'')]"

definition rotated_pairs :: "(string \<times> string) list" where
  "rotated_pairs =
     [(''q'', ''p''),
      (''a very long query repeated many times'', ''short''),
      (''what is X'', ''X is a protocol'')]"

section \<open>The synchronous path, one batch at a time\<close>

text \<open>
  The values the synchronous path computes before its loop, the sequence it builds for
  one pair, and what one iteration of the loop has after the backend call: the collated
  batch and the backend's output.
\<close>

definition sync_budget :: "'a reranker \<Rightarrow> nat \<Rightarrow> int" where
  "sync_budget self max_length =
     int max_length + int (length (encode (tokenizer self) sep))
       + int (length (encode (tokenizer self) default_prompt))"

definition sync_built :: "'a reranker \<Rightarrow> nat \<Rightarrow> string \<times> string \<Rightarrow> feature" where
  "sync_built self max_length pair =
     fst (sync_item (tokenizer self) max_length (encode (tokenizer self) default_prompt)
            (encode (tokenizer self) sep) (sync_budget self max_length) pair)"

definition sync_run ::
  "'a reranker \<Rightarrow> nat \<Rightarrow> (string \<times> string) list \<Rightarrow> error + batch_encoding \<times> 'a model_output" where
  "sync_run self max_length batch_sentences =
     sync_forward self max_length (encode (tokenizer self) default_prompt)
       (encode (tokenizer self) sep) (sync_budget self max_length) batch_sentences"

text \<open>A row of a collated batch that is a built sequence with pad tokens on the padding side.\<close>

definition is_padded :: "tokenizer \<Rightarrow> int list \<Rightarrow> int list \<Rightarrow> bool" where
  "is_padded tk ids row =
     (row = pad_side (padding_side tk) ids (replicate (length row - length ids) (pad_token_id tk)))"

text \<open>
  What the claims about the orchestrator ask of the backend. A well-formed batch has
  \<open>B > 0\<close> rows of \<open>N > 0\<close> token ids and a 0/1 mask of the same shape. On every
  well-formed batch the standard backend returns logits of shape \<open>(B, N, V)\<close> whose
  vocabulary holds the decision token; the layer-wise backend returns \<open>k\<close> logits
  tensors and \<open>k\<close> masks, each tensor and its mask of shape \<open>(B, L)\<close> with \<open>L > 0\<close> and a
  0/1 mask.
\<close>

definition wf_inputs :: "nat \<Rightarrow> nat \<Rightarrow> batch_encoding \<Rightarrow> bool" where
  "wf_inputs B N inputs =
     (0 < B \<and> 0 < N \<and> has_shape B N (t_input_ids inputs) \<and>
      has_shape B N (t_attention_mask inputs) \<and> is_mask (t_attention_mask inputs))"

definition standard_backend_ok :: "'a reranker \<Rightarrow> bool" where
  "standard_backend_ok self =
     (\<forall>inp B N. wf_inputs B N (mi_inputs inp) \<longrightarrow>
        (\<exists>outputs. model self inp = Inr outputs \<and> has_shape B N (logits outputs) \<and>
           list_all (list_all (\<lambda>v. 0 \<le> yes_loc self \<and> yes_loc self < int (length v)))
             (logits outputs)))"

definition layer_ok :: "nat \<Rightarrow> 'a list list \<Rightarrow> int list list \<Rightarrow> bool" where
  "layer_ok B layer_logits layer_mask =
     (case layer_mask of
        [] \<Rightarrow> False
      | row # _ \<Rightarrow>
          has_shape B (length row) layer_logits \<and> has_shape B (length row) layer_mask \<and>
          is_mask layer_mask \<and> 0 < length row)"



section \<open>Helper lemmas\<close>

lemma bind_result_Inr_iff:
  "bind_result m f = Inr y \<longleftrightarrow> (\<exists>x. m = Inr x \<and> f x = Inr y)"
  by (cases m) auto

lemma map_result_Inr:
  assumes "\<And>x. x \<in> set xs \<Longrightarrow> f x = Inr (g x)"
  shows "map_result f xs = Inr (map g xs)"
  using assms by (induction xs) auto

lemma map_result_Inr_D:
  "map_result f xs = Inr ys \<Longrightarrow>
     length ys = length xs \<and> (\<forall>i<length xs. f (xs ! i) = Inr (ys ! i))"
proof (induction xs arbitrary: ys)
  case Nil
  then show ?case by simp
next
  case (Cons x xs)
  from Cons.prems obtain y ys' where y: "f x = Inr y" and ys': "map_result f xs = Inr ys'"
    and eq: "ys = y # ys'"
    by (auto simp: bind_result_Inr_iff)
  from Cons.IH [OF ys'] have len: "length ys' = length xs"
    and el: "\<forall>i<length xs. f (xs ! i) = Inr (ys' ! i)" by auto
  show ?case
  proof (intro conjI allI impI)
    show "length ys = length (x # xs)" using len eq by simp
  next
    fix i assume "i < length (x # xs)"
    then show "f ((x # xs) ! i) = Inr (ys ! i)"
      using y el eq by (cases i) auto
  qed
qed

lemma py_index_last:
  "xs \<noteq> [] \<Longrightarrow> py_index xs (- 1) = Inr (last xs)"
proof -
  assume "xs \<noteq> []"
  then have "0 < length xs" by simp
  then have "nat (int (length xs) + - 1) = length xs - 1" and "- int (length xs) \<le> - 1"
    by linarith+
  with \<open>xs \<noteq> []\<close> show ?thesis
    by (simp add: py_index_def last_conv_nth)
qed

lemma py_index_nat:
  "i < length xs \<Longrightarrow> py_index xs (int i) = Inr (xs ! i)"
  by (simp add: py_index_def Let_def)

lemma last_column_shape:
  assumes "has_shape B L t" and "0 < L"
  shows "last_column t = Inr (map last t)"
  unfolding last_column_def
proof (rule map_result_Inr)
  fix row assume "row \<in> set t"
  with assms have "row \<noteq> []" by (auto simp: has_shape_def list_all_iff)
  then show "py_index row (- 1) = Inr (last row)" by (rule py_index_last)
qed

lemma mask_row_sum_bounds:
  assumes "list_all (\<lambda>x. x = 0 \<or> x = 1) (row :: int list)"
  shows "0 \<le> sum_list row \<and> sum_list row \<le> int (length row)"
  using assms by (induction row) auto

text \<open>The position the right-padded branch reads in one row of the mask.\<close>

lemma right_position_in_bounds:
  assumes "list_all (\<lambda>x. x = 0 \<or> x = 1) (mrow :: int list)"
    and "length mrow = L" and "length lrow = L" and "0 < L"
  shows "py_index lrow (sum_list mrow - 1) =
           Inr (if sum_list mrow = 0 then last lrow else lrow ! nat (sum_list mrow - 1))"
proof -
  from mask_row_sum_bounds [OF assms(1)] assms(2)
  have b: "0 \<le> sum_list mrow" "sum_list mrow \<le> int L" by auto
  show ?thesis
  proof (cases "sum_list mrow = 0")
    case True
    from assms(3,4) have "lrow \<noteq> []" by auto
    with True show ?thesis by (simp add: py_index_last)
  next
    case False
    with b have "0 \<le> sum_list mrow - 1" "sum_list mrow - 1 < int L" by auto
    with False assms(3) show ?thesis by (simp add: py_index_def Let_def)
  qed
qed

lemma right_branch_rows:
  assumes "has_shape B L lg" and "has_shape B L am"
    and "is_mask am" and "0 < L"
  shows "map_result (\<lambda>i.
           bind_result (py_index (map (\<lambda>row. sum_list row - 1) am) (int i)) (\<lambda>pos.
           bind_result (py_index lg (int i)) (\<lambda>row. py_index row pos))) [0..<B]
         = Inr (map (\<lambda>i. if sum_list (am ! i) = 0 then last (lg ! i)
                          else lg ! i ! nat (sum_list (am ! i) - 1)) [0..<B])"
proof (rule map_result_Inr)
  fix i assume "i \<in> set [0..<B]"
  then have i: "i < B" by simp
  from assms i have lm: "length am = B" "length lg = B"
    and rm: "length (am ! i) = L" and rl: "length (lg ! i) = L"
    and m01: "list_all (\<lambda>x. x = 0 \<or> x = 1) (am ! i)"
    by (auto simp: has_shape_def is_mask_def list_all_length)
  from i lm have p1: "py_index (map (\<lambda>row. sum_list row - 1) am) (int i)
      = Inr (sum_list (am ! i) - 1)"
    by (simp add: py_index_nat)
  from i lm have p2: "py_index lg (int i) = Inr (lg ! i)"
    by (simp add: py_index_nat)
  show "bind_result (py_index (map (\<lambda>row. sum_list row - 1) am) (int i)) (\<lambda>pos.
           bind_result (py_index lg (int i)) (\<lambda>row. py_index row pos))
        = Inr (if sum_list (am ! i) = 0 then last (lg ! i)
               else lg ! i ! nat (sum_list (am ! i) - 1))"
    using p1 p2 right_position_in_bounds [OF m01 rm rl assms(4)] by simp
qed

lemma left_padding_shape:
  assumes "has_shape B L am" and "0 < L"
  shows "left_padding am = Inr (sum_list (map last am) = int B)"
  using last_column_shape [OF assms] assms(1)
  by (simp add: left_padding_def has_shape_def)

lemma last_logit_pool_left:
  assumes "has_shape B L lg" and "has_shape B L am" and "0 < L"
    and "sum_list (map last am) = int B"
  shows "last_logit_pool lg am = Inr (map last lg)"
  using left_padding_shape [OF assms(2,3)] last_column_shape [OF assms(1,3)] assms(4)
  by (simp add: last_logit_pool_def)

lemma last_logit_pool_right:
  assumes "has_shape B L lg" and "has_shape B L am"
    and "is_mask am" and "0 < L"
    and "sum_list (map last am) \<noteq> int B"
  shows "last_logit_pool lg am =
           Inr (map (\<lambda>i. if sum_list (am ! i) = 0 then last (lg ! i)
                          else lg ! i ! nat (sum_list (am ! i) - 1)) [0..<B])"
proof -
  from assms(5) have "B \<noteq> 0"
  proof (rule contrapos_nn)
    assume "B = 0"
    with assms(2) show "sum_list (map last am) = int B"
      by (simp add: has_shape_def)
  qed
  moreover from assms(1) have "length lg = B" by (simp add: has_shape_def)
  ultimately show ?thesis
    using left_padding_shape [OF assms(2,4)] assms(5) right_branch_rows [OF assms(1-4)]
    by (simp add: last_logit_pool_def Let_def)
qed

lemma all_zero_row_sum:
  "list_all (\<lambda>x. x = 0) (row :: int list) \<Longrightarrow> sum_list row = 0"
  by (induction row) auto

subsection \<open>Padding\<close>

lemma max_list_ge: "x \<in> set xs \<Longrightarrow> x \<le> max_list xs"
  by (induction xs) auto

lemma max_list_mem: "xs \<noteq> [] \<Longrightarrow> max_list xs \<in> set xs"
proof (induction xs)
  case Nil
  then show ?case by simp
next
  case (Cons a xs)
  show ?case
  proof (cases "xs = []")
    case True
    then show ?thesis by simp
  next
    case False
    with Cons.IH show ?thesis by (auto simp: max_def)
  qed
qed

lemma round_up_least:
  assumes "0 < m"
  shows "m dvd round_up_to_multiple m l \<and> l \<le> round_up_to_multiple m l \<and> (\<forall>k. m dvd k \<and> l \<le> k \<longrightarrow> round_up_to_multiple m l \<le> k)"
proof (cases "l mod m = 0")
  case True
  then show ?thesis by (auto simp: round_up_to_multiple_def)
next
  case False
  have d: "m dvd (l div m + 1) * m" by simp
  have "l = (l div m) * m + l mod m" by simp
  moreover have "l mod m < m" using assms by simp
  ultimately have le: "l \<le> (l div m + 1) * m"
    by (metis add.commute add_le_cancel_left less_imp_le_nat mult.commute mult_Suc_right Suc_eq_plus1 mult.commute)
  have least: "(l div m + 1) * m \<le> k" if "m dvd k" "l \<le> k" for k
  proof -
    from that(1) obtain q where k: "k = m * q" by (auto simp: dvd_def)
    have "l \<noteq> k" using False k by auto
    with that(2) have "l < m * q" using k by simp
    then have "l div m < q" using assms
      by (simp add: div_less_iff_less_mult mult.commute)
    then have "l div m + 1 \<le> q" by simp
    then have "m * (l div m + 1) \<le> m * q" by (rule mult_le_mono2)
    then show ?thesis using k by (simp add: mult.commute)
  qed
  from False d le least show ?thesis by (auto simp: round_up_to_multiple_def)
qed

lemma length_pad_side: "length (pad_side s row r) = length row + length r"
  by (cases s) (simp_all add: pad_side_def)

lemma rectangular_all_length:
  "list_all (\<lambda>row. length row = n) rows \<Longrightarrow> rectangular rows"
  by (cases rows) (auto simp: rectangular_def list_all_iff)

lemma feature_labels_Inr:
  assumes "feature_labels features = Inr ls"
  shows "ls = map (\<lambda>f. the (labels f)) features \<and> list_all (\<lambda>f. labels f \<noteq> None) features"
proof -
  from map_result_Inr_D [OF assms [unfolded feature_labels_def]]
  have len: "length ls = length features"
    and el: "\<forall>i<length features.
               (case labels (features ! i) of None \<Rightarrow> Inl KeyError | Some l \<Rightarrow> Inr l)
                 = Inr (ls ! i)"
    by auto
  have "ls ! i = the (labels (features ! i)) \<and> labels (features ! i) \<noteq> None"
    if "i < length features" for i
    using el that by (cases "labels (features ! i)") auto
  with len show ?thesis by (auto simp: list_eq_iff_nth_eq list_all_length)
qed

lemma feature_labels_total:
  assumes "list_all (\<lambda>f. labels f \<noteq> None) features"
  shows "feature_labels features = Inr (map (\<lambda>f. the (labels f)) features)"
  unfolding feature_labels_def
  by (rule map_result_Inr) (use assms in \<open>auto simp: list_all_iff split: option.splits\<close>)

lemma pad_labels_ids:
  assumes "pad_labels tk features = Inr fs"
  shows "map input_ids fs = map input_ids features \<and>
         map attention_mask fs = map attention_mask features \<and>
         length fs = length features \<and>
         (case labels (hd features) of None \<Rightarrow> fs = features
          | Some _ \<Rightarrow> (\<exists>n. list_all (\<lambda>f. \<exists>l. labels f = Some l \<and> length l = n) fs))"
proof -
  from assms obtain first rest where fr: "features = first # rest"
    by (cases features) (auto simp: pad_labels_def)
  show ?thesis
  proof (cases "labels first")
    case None
    with assms fr have "fs = features" by (simp add: pad_labels_def)
    with None fr show ?thesis by simp
  next
    case (Some l0)
    with assms fr obtain ls where ls: "feature_labels features = Inr ls"
      and fs0: "fs = map (\<lambda>(f, l). f \<lparr> labels :=
                     Some (pad_side (padding_side tk) l
                            (replicate ((max_list (map length ls) + 8 - 1) div 8 * 8 - length l)
                               (- 100))) \<rparr>)
                   (zip features ls)"
      by (auto simp: pad_labels_def bind_result_Inr_iff Let_def)
    let ?n = "(max_list (map length ls) + 8 - 1) div 8 * 8"
    from feature_labels_Inr [OF ls] have lsm: "ls = map (\<lambda>f. the (labels f)) features"
      and some: "list_all (\<lambda>f. labels f \<noteq> None) features" by auto
    have "zip features ls = map (\<lambda>f. (f, the (labels f))) features"
      unfolding lsm by (induction features) auto
    with fs0 have fs: "fs = map (\<lambda>f. f \<lparr> labels :=
                     Some (pad_side (padding_side tk) (the (labels f))
                            (replicate (?n - length (the (labels f))) (- 100))) \<rparr>) features"
      by (simp add: comp_def)
    have lab: "length (the (labels f)) \<le> ?n" if "f \<in> set features" for f
    proof -
      from that lsm have "the (labels f) \<in> set ls" by auto
      then have "length (the (labels f)) \<le> max_list (map length ls)"
        by (intro max_list_ge) simp
      then show ?thesis by presburger
    qed
    have "list_all (\<lambda>f. \<exists>l. labels f = Some l \<and> length l = ?n) fs"
      unfolding fs list_all_iff
    proof
      fix g assume "g \<in> set (map (\<lambda>f. f \<lparr> labels :=
                     Some (pad_side (padding_side tk) (the (labels f))
                            (replicate (?n - length (the (labels f))) (- 100))) \<rparr>) features)"
      then obtain f where f: "f \<in> set features" and g: "g = f \<lparr> labels :=
                     Some (pad_side (padding_side tk) (the (labels f))
                            (replicate (?n - length (the (labels f))) (- 100))) \<rparr>" by auto
      from lab [OF f] g show "\<exists>l. labels g = Some l \<and> length l = ?n"
        by (simp add: length_pad_side)
    qed
    then have "\<exists>n. list_all (\<lambda>f. \<exists>l. labels f = Some l \<and> length l = n) fs" by blast
    with Some fr fs show ?thesis by (simp add: comp_def)
  qed
qed

lemma pad_labels_total:
  assumes "features \<noteq> []"
    and "labels (hd features) \<noteq> None \<longrightarrow> list_all (\<lambda>f. labels f \<noteq> None) features"
  shows "\<exists>fs. pad_labels tk features = Inr fs"
proof -
  from assms(1) obtain first rest where fr: "features = first # rest" by (cases features) auto
  show ?thesis
  proof (cases "labels first")
    case None
    with fr show ?thesis by (simp add: pad_labels_def)
  next
    case (Some l0)
    with assms(2) fr have "list_all (\<lambda>f. labels f \<noteq> None) features" by simp
    from feature_labels_total [OF this] Some fr show ?thesis
      by (simp add: pad_labels_def Let_def)
  qed
qed

lemma tokenizer_pad_shape:
  assumes ne: "fs \<noteq> []"
    and am: "list_all (\<lambda>f. length (attention_mask f) = length (input_ids f)) fs"
    and lab: "labels (hd fs) \<noteq> None \<longrightarrow> (\<exists>n. list_all (\<lambda>f. \<exists>l. labels f = Some l \<and> length l = n) fs)"
    and m: "0 < m"
  shows "\<exists>collected. tokenizer_pad tk fs max_length m = Inr collected \<and>
           has_shape (length fs) (round_up_to_multiple m (max_list (map (\<lambda>f. length (input_ids f)) fs)))
             (t_input_ids collected)"
proof -
  let ?N = "round_up_to_multiple m (max_list (map (\<lambda>f. length (input_ids f)) fs))"
  have le: "length (input_ids f) \<le> ?N" if "f \<in> set fs" for f
  proof -
    from that have "length (input_ids f) \<le> max_list (map (\<lambda>f. length (input_ids f)) fs)"
      by (intro max_list_ge) auto
    moreover have "max_list (map (\<lambda>f. length (input_ids f)) fs) \<le> ?N"
      using round_up_least [OF m] by blast
    ultimately show ?thesis by simp
  qed
  let ?masks = "map (\<lambda>f. pad_side (padding_side tk) (attention_mask f)
                        (replicate (?N - length (input_ids f)) 0)) fs"
  let ?ids = "map (\<lambda>f. pad_side (padding_side tk) (input_ids f)
                      (replicate (?N - length (input_ids f)) (pad_token_id tk))) fs"
  have "list_all (\<lambda>row. length row = ?N) ?masks"
    using am le by (auto simp: list_all_iff length_pad_side)
  then have rm: "rectangular ?masks" by (rule rectangular_all_length)
  have ids: "list_all (\<lambda>row. length row = ?N) ?ids"
    using le by (auto simp: list_all_iff length_pad_side)
  from ne obtain first rest where fr: "fs = first # rest" by (cases fs) auto
  have "\<exists>labs. (case labels first of None \<Rightarrow> Inr None
                 | Some _ \<Rightarrow> bind_result (feature_labels fs) (\<lambda>ls. Inr (Some ls))) = Inr labs \<and>
               (case labs of None \<Rightarrow> True | Some ls \<Rightarrow> rectangular ls)"
  proof (cases "labels first")
    case None
    then show ?thesis by simp
  next
    case (Some l0)
    with lab fr obtain n where n: "list_all (\<lambda>f. \<exists>l. labels f = Some l \<and> length l = n) fs"
      by auto
    then have "list_all (\<lambda>f. labels f \<noteq> None) fs" by (auto simp: list_all_iff)
    from feature_labels_total [OF this]
    have fl: "feature_labels fs = Inr (map (\<lambda>f. the (labels f)) fs)" .
    from n have "list_all (\<lambda>row. length row = n) (map (\<lambda>f. the (labels f)) fs)"
      by (auto simp: list_all_iff)
    then have "rectangular (map (\<lambda>f. the (labels f)) fs)" by (rule rectangular_all_length)
    with Some fl show ?thesis by simp
  qed
  then obtain labs where
    l1: "(case labels first of None \<Rightarrow> Inr None
          | Some _ \<Rightarrow> bind_result (feature_labels fs) (\<lambda>ls. Inr (Some ls))) = Inr labs"
    and l2: "case labs of None \<Rightarrow> True | Some ls \<Rightarrow> rectangular ls" by blast
  have "tokenizer_pad tk fs max_length m =
          Inr \<lparr> t_input_ids = ?ids, t_attention_mask = ?masks, t_labels = labs \<rparr>"
    unfolding tokenizer_pad_def fr [symmetric]
    using rm l2 by (simp add: fr l1 Let_def)
  with ids show ?thesis by (simp add: has_shape_def)
qed

lemma collater_shape:
  assumes "features \<noteq> []"
    and "list_all (\<lambda>f. length (attention_mask f) = length (input_ids f)) features"
    and "labels (hd features) \<noteq> None \<longrightarrow> list_all (\<lambda>f. labels f \<noteq> None) features"
  shows "\<exists>collected. collater tk max_length (Columns features ql pl) = Inr (collected, ql, pl) \<and>
           has_shape (length features)
             (round_up_to_multiple 8 (max_list (map (\<lambda>f. length (input_ids f)) features)))
             (t_input_ids collected)"
proof -
  from pad_labels_total [OF assms(1,3)] obtain fs where fs: "pad_labels tk features = Inr fs"
    by blast
  from pad_labels_ids [OF fs] have ids: "map input_ids fs = map input_ids features"
    and ams: "map attention_mask fs = map attention_mask features"
    and len: "length fs = length features"
    and lab: "case labels (hd features) of None \<Rightarrow> fs = features
              | Some _ \<Rightarrow> (\<exists>n. list_all (\<lambda>f. \<exists>l. labels f = Some l \<and> length l = n) fs)"
    by auto
  from len assms(1) have ne: "fs \<noteq> []" by auto
  have am: "list_all (\<lambda>f. length (attention_mask f) = length (input_ids f)) fs"
    unfolding list_all_length
  proof (intro allI impI)
    fix i assume i: "i < length fs"
    from ids i have "input_ids (fs ! i) = input_ids (features ! i)"
      by (metis len nth_map)
    moreover from ams i have "attention_mask (fs ! i) = attention_mask (features ! i)"
      by (metis len nth_map)
    moreover from assms(2) i len have "length (attention_mask (features ! i)) = length (input_ids (features ! i))"
      by (simp add: list_all_length)
    ultimately show "length (attention_mask (fs ! i)) = length (input_ids (fs ! i))" by simp
  qed
  have lab': "labels (hd fs) \<noteq> None \<longrightarrow> (\<exists>n. list_all (\<lambda>f. \<exists>l. labels f = Some l \<and> length l = n) fs)"
    using lab by (cases "labels (hd features)") auto
  have mx: "map (\<lambda>f. length (input_ids f)) fs = map (\<lambda>f. length (input_ids f)) features"
  proof -
    have "map (\<lambda>f. length (input_ids f)) fs = map length (map input_ids fs)" by (simp add: comp_def)
    also have "\<dots> = map length (map input_ids features)" by (simp only: ids)
    finally show ?thesis by (simp add: comp_def)
  qed
  from tokenizer_pad_shape [OF ne am lab', of 8 tk max_length] obtain collected
    where "tokenizer_pad tk fs max_length 8 = Inr collected"
      and "has_shape (length fs) (round_up_to_multiple 8 (max_list (map (\<lambda>f. length (input_ids f)) fs))) (t_input_ids collected)"
    by auto
  with fs assms(1) len mx show ?thesis by (simp add: collater_def)
qed

section \<open>Claims about the score extractor\<close>

text \<open>
  C3. For logits and an attention mask of the same batch shape \<open>(B, L)\<close>, the score
  extractor returns one entry per row: when the last column of the attention mask sums to
  the batch size, the entry of row \<open>i\<close> is the logits of row \<open>i\<close> at the final sequence
  position \<open>L - 1\<close>; otherwise it is, for each row independently, the logits at the
  (Python) index \<open>sum(attention_mask[i]) - 1\<close>.
\<close>

theorem last_logit_pool_selects:
  assumes "has_shape B L lg" and "has_shape B L am"
    and "is_mask am" and "0 < L"
  shows "\<exists>out. last_logit_pool lg am = Inr out \<and> length out = B \<and>
           (\<forall>i<B. if sum_list (map (\<lambda>row. row ! (L - 1)) am) = int B
                   then out ! i = lg ! i ! (L - 1)
                   else py_index (lg ! i) (sum_list (am ! i) - 1)
                          = Inr (out ! i))"
proof -
  have lastm: "map last am = map (\<lambda>row. row ! (L - 1)) am"
    using assms(2,4) by (auto simp: has_shape_def list_all_iff last_conv_nth)
  have len: "length lg = B" "length am = B"
    using assms(1,2) by (simp_all add: has_shape_def)
  show ?thesis
  proof (cases "sum_list (map (\<lambda>row. row ! (L - 1)) am) = int B")
    case True
    then have "last_logit_pool lg am = Inr (map last lg)"
      using last_logit_pool_left [OF assms(1,2,4)] lastm by simp
    moreover have "\<forall>i<B. map last lg ! i = lg ! i ! (L - 1)"
      using assms(1,4) len by (auto simp: has_shape_def list_all_length last_conv_nth)
    ultimately show ?thesis using True len by simp
  next
    case False
    let ?out = "map (\<lambda>i. if sum_list (am ! i) = 0 then last (lg ! i)
                          else lg ! i ! nat (sum_list (am ! i) - 1)) [0..<B]"
    from False have pool: "last_logit_pool lg am = Inr ?out"
      using last_logit_pool_right [OF assms] lastm by simp
    have "py_index (lg ! i) (sum_list (am ! i) - 1) = Inr (?out ! i)"
      if i: "i < B" for i
    proof -
      from assms i len have "list_all (\<lambda>x. x = 0 \<or> x = 1) (am ! i)"
        and "length (am ! i) = L" and "length (lg ! i) = L"
        by (auto simp: has_shape_def is_mask_def list_all_length)
      from right_position_in_bounds [OF this assms(4)] i show ?thesis by simp
    qed
    with pool False show ?thesis by simp
  qed
qed

theorem last_logit_pool_selects_witness:
  "has_shape 2 3 [[10, 11, 12], [20, 21, 22 :: int]] \<and>
   has_shape 2 3 [[1, 1, 0], [1, 0, 0 :: int]] \<and>
   is_mask [[1, 1, 0], [1, 0, 0]] \<and> (0::nat) < 3 \<and>
   last_logit_pool [[10, 11, 12], [20, 21, 22 :: int]] [[1, 1, 0], [1, 0, 0]] = Inr [11, 20] \<and>
   last_logit_pool [[10, 11, 12], [20, 21, 22 :: int]] [[0, 1, 1], [1, 1, 1]] = Inr [12, 22]"
  using last_logit_pool_selects [of 2 3 "[[10, 11, 12], [20, 21, 22 :: int]]"
      "[[1, 1, 0], [1, 0, 0]]"]
  by (simp add: has_shape_def is_mask_def last_logit_pool_def left_padding_def
      last_column_def py_index_def Let_def upt_rec)

text \<open>
  C10. In the right-padded branch (the last column of the mask does not sum to the batch
  size) the extractor does not fail: for every row the index \<open>sum(attention_mask[i]) - 1\<close>
  lies in \<open>[-L, L)\<close>, the value returned for the row is the logits at that index, and for
  a row whose mask is all zeros the index is \<open>-1\<close>, which reads the final sequence
  position \<open>L - 1\<close>.
\<close>

theorem right_padded_index_in_bounds:
  assumes "has_shape B L lg" and "has_shape B L am"
    and "is_mask am" and "0 < L"
    and "sum_list (map (\<lambda>row. row ! (L - 1)) am) \<noteq> int B"
  shows "\<exists>out. last_logit_pool lg am = Inr out \<and>
           (\<forall>i<B. - int L \<le> sum_list (am ! i) - 1 \<and>
                   sum_list (am ! i) - 1 < int L \<and>
                   py_index (lg ! i) (sum_list (am ! i) - 1) = Inr (out ! i) \<and>
                   (list_all (\<lambda>x. x = 0) (am ! i) \<longrightarrow>
                      sum_list (am ! i) - 1 = - 1 \<and>
                      out ! i = lg ! i ! (L - 1)))"
proof -
  have lastm: "map last am = map (\<lambda>row. row ! (L - 1)) am"
    using assms(2,4) by (auto simp: has_shape_def list_all_iff last_conv_nth)
  have len: "length lg = B" "length am = B"
    using assms(1,2) by (simp_all add: has_shape_def)
  let ?out = "map (\<lambda>i. if sum_list (am ! i) = 0 then last (lg ! i)
                        else lg ! i ! nat (sum_list (am ! i) - 1)) [0..<B]"
  have pool: "last_logit_pool lg am = Inr ?out"
    using last_logit_pool_right [OF assms(1-4)] assms(5) lastm by simp
  have "- int L \<le> sum_list (am ! i) - 1 \<and>
        sum_list (am ! i) - 1 < int L \<and>
        py_index (lg ! i) (sum_list (am ! i) - 1) = Inr (?out ! i) \<and>
        (list_all (\<lambda>x. x = 0) (am ! i) \<longrightarrow>
           sum_list (am ! i) - 1 = - 1 \<and> ?out ! i = lg ! i ! (L - 1))"
    if i: "i < B" for i
  proof -
    from assms i len have m01: "list_all (\<lambda>x. x = 0 \<or> x = 1) (am ! i)"
      and rm: "length (am ! i) = L" and rl: "length (lg ! i) = L"
      by (auto simp: has_shape_def is_mask_def list_all_length)
    from mask_row_sum_bounds [OF m01] rm
    have b: "0 \<le> sum_list (am ! i)" "sum_list (am ! i) \<le> int L"
      by auto
    have idx: "py_index (lg ! i) (sum_list (am ! i) - 1) = Inr (?out ! i)"
      using right_position_in_bounds [OF m01 rm rl assms(4)] i by simp
    have zero: "sum_list (am ! i) - 1 = - 1 \<and> ?out ! i = lg ! i ! (L - 1)"
      if "list_all (\<lambda>x. x = 0) (am ! i)"
    proof -
      from all_zero_row_sum [OF that] have s: "sum_list (am ! i) = 0" .
      from rl assms(4) have "last (lg ! i) = lg ! i ! (L - 1)"
        by (auto simp: last_conv_nth)
      with s i show ?thesis by simp
    qed
    from b assms(4) have "- int L \<le> sum_list (am ! i) - 1"
      and "sum_list (am ! i) - 1 < int L" by linarith+
    with idx zero show ?thesis by blast
  qed
  with pool show ?thesis by blast
qed

theorem right_padded_index_in_bounds_witness:
  "has_shape 2 3 [[10, 11, 12], [20, 21, 22 :: int]] \<and>
   has_shape 2 3 [[1, 1, 0], [0, 0, 0 :: int]] \<and>
   is_mask [[1, 1, 0], [0, 0, 0]] \<and> (0::nat) < 3 \<and>
   sum_list (map (\<lambda>row. row ! (3 - 1)) [[1, 1, 0], [0, 0, 0 :: int]]) \<noteq> int 2 \<and>
   last_logit_pool [[10, 11, 12], [20, 21, 22 :: int]] [[1, 1, 0], [0, 0, 0]] = Inr [11, 22]"
  using right_padded_index_in_bounds [of 2 3 "[[10, 11, 12], [20, 21, 22 :: int]]"
      "[[1, 1, 0], [0, 0, 0]]"]
  by (simp add: has_shape_def is_mask_def last_logit_pool_def left_padding_def
      last_column_def py_index_def Let_def upt_rec)

section \<open>Claims about the batch collator\<close>

text \<open>
  C5 (as amended). For every non-empty batch of encoded examples (attention mask as long
  as the token ids; labels on all examples or not on the first), the collator returns the
  batch with the length markers unchanged, every row of \<open>input_ids\<close> has the same length
  \<open>N\<close>, and \<open>N\<close> is the smallest multiple of 8 that is greater than or equal to the
  maximum example length in the batch. \<open>max_length\<close> does not cap it.
\<close>

theorem collater_pads_to_multiple_of_8:
  assumes "features \<noteq> []"
    and "list_all (\<lambda>f. length (attention_mask f) = length (input_ids f)) features"
    and "labels (hd features) \<noteq> None \<longrightarrow> list_all (\<lambda>f. labels f \<noteq> None) features"
  shows "\<exists>collected N.
           collater tk max_length (Columns features query_lengths prompt_lengths)
             = Inr (collected, query_lengths, prompt_lengths) \<and>
           has_shape (length features) N (t_input_ids collected) \<and>
           8 dvd N \<and> max_list (map (\<lambda>f. length (input_ids f)) features) \<le> N \<and>
           (\<forall>m. 8 dvd m \<and> max_list (map (\<lambda>f. length (input_ids f)) features) \<le> m
                \<longrightarrow> N \<le> m)"
proof -
  let ?longest = "max_list (map (\<lambda>f. length (input_ids f)) features)"
  from collater_shape [OF assms] obtain collected where
    c: "collater tk max_length (Columns features query_lengths prompt_lengths)
          = Inr (collected, query_lengths, prompt_lengths)"
    and sh: "has_shape (length features) (round_up_to_multiple 8 ?longest) (t_input_ids collected)"
    by blast
  have "(0::nat) < 8" by simp
  from round_up_least [OF this, of ?longest] c sh show ?thesis by blast
qed

theorem collater_pads_to_multiple_of_8_witness:
  "[\<lparr> input_ids = [5, 6, 7], attention_mask = [1, 1, 1], labels = None \<rparr>,
    \<lparr> input_ids = [5, 6, 7, 8, 9, 10, 11, 12, 13],
      attention_mask = [1, 1, 1, 1, 1, 1, 1, 1, 1], labels = None \<rparr>] \<noteq> [] \<and>
   list_all (\<lambda>f. length (attention_mask f) = length (input_ids f))
     [\<lparr> input_ids = [5, 6, 7], attention_mask = [1, 1, 1], labels = None \<rparr>,
      \<lparr> input_ids = [5, 6, 7, 8, 9, 10, 11, 12, 13],
        attention_mask = [1, 1, 1, 1, 1, 1, 1, 1, 1], labels = None \<rparr>] \<and>
   collater char_tokenizer 8
     (Columns [\<lparr> input_ids = [5, 6, 7], attention_mask = [1, 1, 1], labels = None \<rparr>,
               \<lparr> input_ids = [5, 6, 7, 8, 9, 10, 11, 12, 13],
                 attention_mask = [1, 1, 1, 1, 1, 1, 1, 1, 1], labels = None \<rparr>] [2, 3] [1, 1])
   = Inr (\<lparr> t_input_ids = [[5, 6, 7, 0, 0, 0, 0, 0, 0, 0, 0, 0, 0, 0, 0, 0],
                           [5, 6, 7, 8, 9, 10, 11, 12, 13, 0, 0, 0, 0, 0, 0, 0]],
            t_attention_mask = [[1, 1, 1, 0, 0, 0, 0, 0, 0, 0, 0, 0, 0, 0, 0, 0],
                                [1, 1, 1, 1, 1, 1, 1, 1, 1, 0, 0, 0, 0, 0, 0, 0]],
            t_labels = None \<rparr>, [2, 3], [1, 1])"
proof -
  have e: "collater char_tokenizer 8
     (Columns [\<lparr> input_ids = [5, 6, 7], attention_mask = [1, 1, 1], labels = None \<rparr>,
               \<lparr> input_ids = [5, 6, 7, 8, 9, 10, 11, 12, 13],
                 attention_mask = [1, 1, 1, 1, 1, 1, 1, 1, 1], labels = None \<rparr>] [2, 3] [1, 1])
   = Inr (\<lparr> t_input_ids = [[5, 6, 7, 0, 0, 0, 0, 0, 0, 0, 0, 0, 0, 0, 0, 0],
                           [5, 6, 7, 8, 9, 10, 11, 12, 13, 0, 0, 0, 0, 0, 0, 0]],
            t_attention_mask = [[1, 1, 1, 0, 0, 0, 0, 0, 0, 0, 0, 0, 0, 0, 0, 0],
                                [1, 1, 1, 1, 1, 1, 1, 1, 1, 0, 0, 0, 0, 0, 0, 0]],
            t_labels = None \<rparr>, [2, 3], [1, 1])"
    by code_simp
  from collater_pads_to_multiple_of_8 [of
      "[\<lparr> input_ids = [5, 6, 7], attention_mask = [1, 1, 1], labels = None \<rparr>,
        \<lparr> input_ids = [5, 6, 7, 8, 9, 10, 11, 12, 13],
          attention_mask = [1, 1, 1, 1, 1, 1, 1, 1, 1], labels = None \<rparr>]"
      char_tokenizer 8 "[2, 3]" "[1, 1]"] e
  show ?thesis by simp
qed

text \<open>
  C5 as stated fails: with \<open>max_length = 8\<close> and one example of 9 tokens the rows have
  length 16, while the smallest multiple of 8 that is at least \<open>min(8, 9)\<close> is 8.
\<close>

theorem collater_max_length_counterexample:
  "collater char_tokenizer 8
     (Columns [\<lparr> input_ids = [5, 6, 7, 8, 9, 10, 11, 12, 13],
                 attention_mask = [1, 1, 1, 1, 1, 1, 1, 1, 1], labels = None \<rparr>] [3] [1])
   = Inr (\<lparr> t_input_ids = [[5, 6, 7, 8, 9, 10, 11, 12, 13, 0, 0, 0, 0, 0, 0, 0]],
            t_attention_mask = [[1, 1, 1, 1, 1, 1, 1, 1, 1, 0, 0, 0, 0, 0, 0, 0]],
            t_labels = None \<rparr>, [3], [1]) \<and>
   length [5, 6, 7, 8, 9, 10, 11, 12, 13, 0, 0, 0, 0, 0, 0, 0 :: int] = 16 \<and>
   round_up_to_multiple 8 (min 8 (length [5, 6, 7, 8, 9, 10, 11, 12, 13 :: int])) = 8"
  by code_simp

section \<open>Claims about the sequence builder\<close>

lemma length_remove_tokens: "length (remove_tokens s n xs) = length xs - n"
  by (cases s) (simp_all add: remove_tokens_def)

lemma length_tokenize: "length (tokenize tk text n) \<le> n"
  by (simp add: tokenize_def length_remove_tokens)

lemma prepare_for_model_fits:
  assumes "int (length ids) < m"
  shows "int (length (prepare_for_model tk ids pair_ids m)) \<le> m"
proof -
  let ?total = "int (length ids) + int (length pair_ids)"
  show ?thesis
  proof (cases "?total > m")
    case True
    with assms have "m \<noteq> 0" "int (length pair_ids) > ?total - m" by auto
    with True have "prepare_for_model tk ids pair_ids m
        = ids @ remove_tokens (truncation_side tk) (nat (?total - m)) pair_ids"
      by (simp add: prepare_for_model_def Let_def)
    with True assms show ?thesis by (simp add: length_remove_tokens)
  next
    case False
    then show ?thesis by (simp add: prepare_for_model_def Let_def)
  qed
qed

text \<open>
  C1 (as amended). In \<^verbatim>\<open>DatasetForReranker\<close> the encode budget is \<open>max_length\<close> minus the
  separator and prompt token counts, and whenever the bos token and the truncated query
  take fewer tokens than that budget, the sequence built for a (query, passage) pair
  (bos + query + separator + truncated passage + separator + prompt) has length at most
  \<open>max_length\<close>.
\<close>

theorem getitem_length_bound:
  assumes "int (length (bos_token_id tk # tokenize tk (''A: '' @ query) 32))
             < encode_max_length (DatasetForReranker data tk max_length prompt)"
  shows "encode_max_length (DatasetForReranker data tk max_length prompt)
           = int max_length
             - int (length (sep_inputs (DatasetForReranker data tk max_length prompt)))
             - int (length (prompt_inputs (DatasetForReranker data tk max_length prompt))) \<and>
         length (input_ids (fst (getitem (DatasetForReranker data tk max_length prompt)
           (query, passage)))) \<le> max_length"
proof -
  define ds where "ds = DatasetForReranker data tk max_length prompt"
  have b: "encode_max_length ds
           = int max_length - int (length (sep_inputs ds)) - int (length (prompt_inputs ds))"
    and q: "query_prefix ds = ''A: ''" and t: "ds_tokenizer ds = tk"
    by (simp_all add: ds_def DatasetForReranker_def Let_def)
  let ?ids = "bos_token_id tk # tokenize tk (''A: '' @ query) 32"
  let ?pair = "sep_inputs ds @ tokenize tk (passage_prefix ds @ passage) (max_len ds)"
  have "int (length ?ids) < encode_max_length ds"
    using assms by (simp only: ds_def)
  then have "int (length (prepare_for_model tk ?ids ?pair (encode_max_length ds)))
      \<le> encode_max_length ds"
    by (rule prepare_for_model_fits)
  moreover have "input_ids (fst (getitem ds (query, passage)))
      = prepare_for_model tk ?ids ?pair (encode_max_length ds) @ sep_inputs ds @ prompt_inputs ds"
    using q t by (simp add: getitem_def Let_def)
  ultimately have "int (length (input_ids (fst (getitem ds (query, passage))))) \<le> int max_length"
    using b by simp
  with b show ?thesis by (simp add: ds_def)
qed

theorem getitem_length_bound_witness:
  "int (length (bos_token_id char_tokenizer # tokenize char_tokenizer (''A: '' @ ''hello'') 32))
     < encode_max_length (DatasetForReranker [] char_tokenizer 80 None) \<and>
   encode_max_length (DatasetForReranker [] char_tokenizer 80 None) = 23 \<and>
   length (input_ids (fst (getitem (DatasetForReranker [] char_tokenizer 80 None)
     (''hello'', ''a passage that is long enough to be cut'')))) \<le> 80"
proof -
  have h: "int (length (bos_token_id char_tokenizer # tokenize char_tokenizer (''A: '' @ ''hello'') 32))
     < encode_max_length (DatasetForReranker [] char_tokenizer 80 None)"
    by code_simp
  have b: "encode_max_length (DatasetForReranker [] char_tokenizer 80 None) = 23"
    by code_simp
  from getitem_length_bound [OF h, of "''a passage that is long enough to be cut''"] h b
  show ?thesis by simp
qed

text \<open>
  C1 as stated fails for a \<open>max_length\<close> that leaves a budget smaller than bos + query:
  only the second sequence may be truncated, so nothing is removed. With the default
  prompt (56 characters) and \<open>max_length = 64\<close> the budget is 7 and the sequence built
  for the pair (hello, x) has 71 tokens.
\<close>

theorem getitem_length_counterexample:
  "encode_max_length (DatasetForReranker [] char_tokenizer 64 None) = 7 \<and>
   length (input_ids (fst (getitem (DatasetForReranker [] char_tokenizer 64 None)
     (''hello'', ''x'')))) = 71 \<and>
   \<not> length (input_ids (fst (getitem (DatasetForReranker [] char_tokenizer 64 None)
     (''hello'', ''x'')))) \<le> 64"
  by code_simp

section \<open>Lemmas about the orchestrator\<close>

subsection \<open>The sort permutation and its inverse\<close>

lemma valid_argsort_D:
  assumes "valid_argsort np_argsort"
  shows "length (np_argsort keys) = length keys" and "distinct (np_argsort keys)"
    and "set (np_argsort keys) = {0..<length keys}"
    and "sorted (map (\<lambda>i. keys ! i) (np_argsort keys))"
proof -
  from assms show d: "distinct (np_argsort keys)"
    and s: "set (np_argsort keys) = {0..<length keys}"
    and "sorted (map (\<lambda>i. keys ! i) (np_argsort keys))"
    by (simp_all add: valid_argsort_def)
  from distinct_card [OF d] s show "length (np_argsort keys) = length keys" by simp
qed

lemma stable_argsort_valid: "valid_argsort stable_argsort"
  by (simp add: valid_argsort_def stable_argsort_def sorted_sort_key)

lemma valid_argsort_unique:
  assumes va: "valid_argsort np_argsort" and dk: "distinct keys"
  shows "np_argsort keys = stable_argsort keys"
proof -
  let ?f = "\<lambda>i. keys ! i"
  let ?xs = "np_argsort keys" and ?ys = "stable_argsort keys"
  have inj: "inj_on ?f {0..<length keys}"
    using dk by (auto simp: inj_on_def nth_eq_iff_index_eq)
  note x = valid_argsort_D [OF va, of keys]
  note y = valid_argsort_D [OF stable_argsort_valid, of keys]
  have "map ?f ?xs = map ?f ?ys"
  proof (rule sorted_distinct_set_unique)
    show "sorted (map ?f ?xs)" by (rule x(4))
    show "sorted (map ?f ?ys)" by (rule y(4))
    show "distinct (map ?f ?xs)" using x(2,3) inj by (simp add: distinct_map)
    show "distinct (map ?f ?ys)" using y(2,3) inj by (simp add: distinct_map)
    show "set (map ?f ?xs) = set (map ?f ?ys)" using x(3) y(3) by simp
  qed
  moreover have "inj_on ?f (set ?xs \<union> set ?ys)" using inj x(3) y(3) by simp
  ultimately show ?thesis by (simp add: inj_on_map_eq_map)
qed

lemma argsort_inverse:
  assumes va: "valid_argsort np_argsort"
    and d: "distinct idx" and s: "set idx = {0..<length idx}" and i: "i < length idx"
  shows "np_argsort (map int idx) ! i < length idx \<and> idx ! (np_argsort (map int idx) ! i) = i"
proof -
  let ?n = "length idx"
  let ?inv = "np_argsort (map int idx)"
  note v = valid_argsort_D [OF va, of "map int idx"]
  from v have len: "length ?inv = ?n" and dinv: "distinct ?inv"
    and sinv: "set ?inv = {0..<?n}" by simp_all
  have "map (\<lambda>j. map int idx ! j) ?inv = map (\<lambda>j. int (idx ! j)) ?inv"
    using sinv by (intro map_cong) auto
  with v(4) have "sorted (map (\<lambda>j. int (idx ! j)) ?inv)" by simp
  then have srt: "sorted (map (\<lambda>j. idx ! j) ?inv)" by (simp add: sorted_map)
  have inj: "inj_on (\<lambda>j. idx ! j) {0..<?n}"
    using d by (auto simp: inj_on_def nth_eq_iff_index_eq)
  have dm: "distinct (map (\<lambda>j. idx ! j) ?inv)"
    using dinv inj sinv by (simp add: distinct_map)
  have "set (map (\<lambda>j. idx ! j) ?inv) = (\<lambda>j. idx ! j) ` {0..<?n}"
    using sinv by simp
  also have "\<dots> = set idx"
    by (auto simp: set_conv_nth)
  finally have sm: "set (map (\<lambda>j. idx ! j) ?inv) = set [0..<?n]" using s by simp
  have "map (\<lambda>j. idx ! j) ?inv = [0..<?n]"
    by (rule sorted_distinct_set_unique [OF srt dm _ _ sm]) simp_all
  then have "map (\<lambda>j. idx ! j) ?inv ! i = [0..<?n] ! i" by simp
  with i len have "idx ! (?inv ! i) = i" by simp
  moreover from i len sinv have "?inv ! i < ?n"
    by (metis atLeastLessThan_iff nth_mem)
  ultimately show ?thesis by simp
qed

lemma length_sorted_idx_perm:
  assumes "valid_argsort np_argsort"
  shows "length (length_sorted_idx np_argsort pairs) = length pairs"
    and "distinct (length_sorted_idx np_argsort pairs)"
    and "set (length_sorted_idx np_argsort pairs) = {0..<length pairs}"
  using valid_argsort_D [OF assms,
      of "map (\<lambda>pair. - text_length (fst pair) - text_length (snd pair)) pairs"]
  by (simp_all add: length_sorted_idx_def)

lemma sort_sentences_valid:
  assumes "valid_argsort np_argsort"
  shows "sort_sentences pairs (length_sorted_idx np_argsort pairs)
           = Inr (sentences_sorted np_argsort pairs)"
  unfolding sort_sentences_def sentences_sorted_def
  by (rule map_result_Inr) (use length_sorted_idx_perm(3) [OF assms, of pairs] in
      \<open>auto simp: py_index_nat\<close>)

lemma inverse_position:
  assumes va: "valid_argsort np_argsort" and i: "i < length pairs"
  shows "np_argsort (map int (length_sorted_idx np_argsort pairs)) ! i < length pairs \<and>
         length_sorted_idx np_argsort pairs
           ! (np_argsort (map int (length_sorted_idx np_argsort pairs)) ! i) = i \<and>
         sentences_sorted np_argsort pairs
           ! (np_argsort (map int (length_sorted_idx np_argsort pairs)) ! i) = pairs ! i"
proof -
  note p = length_sorted_idx_perm [OF va, of pairs]
  from p have s: "set (length_sorted_idx np_argsort pairs)
      = {0..<length (length_sorted_idx np_argsort pairs)}" by simp
  from i p(1) have "i < length (length_sorted_idx np_argsort pairs)" by simp
  from argsort_inverse [OF va p(2) s this] p(1)
  have a: "np_argsort (map int (length_sorted_idx np_argsort pairs)) ! i < length pairs"
    and b: "length_sorted_idx np_argsort pairs
              ! (np_argsort (map int (length_sorted_idx np_argsort pairs)) ! i) = i" by auto
  from a p(1) b show ?thesis by (simp add: sentences_sorted_def)
qed

lemma inverse_perm:
  assumes va: "valid_argsort np_argsort"
  shows "length (np_argsort (map int (length_sorted_idx np_argsort pairs))) = length pairs"
    and "set (np_argsort (map int (length_sorted_idx np_argsort pairs))) = {0..<length pairs}"
  using valid_argsort_D [OF va, of "map int (length_sorted_idx np_argsort pairs)"]
    length_sorted_idx_perm(1) [OF va, of pairs]
  by simp_all

subsection \<open>Batches and positions\<close>

lemma concat_batches: "0 < n \<Longrightarrow> concat (batches n xs) = xs"
proof (induction n xs rule: batches.induct)
  case (1 batch_size xs)
  show ?case
  proof (cases "xs = []")
    case True
    then show ?thesis by (simp add: batches.simps)
  next
    case False
    with 1 have "concat (batches batch_size (drop batch_size xs)) = drop batch_size xs" by simp
    with False 1(2) show ?thesis by (subst batches.simps) simp
  qed
qed

lemma batches_nonempty: "0 < n \<Longrightarrow> xs \<noteq> [] \<Longrightarrow> batches n xs \<noteq> []"
  by (subst batches.simps) simp

lemma batches_member_nonempty: "b \<in> set (batches n xs) \<Longrightarrow> b \<noteq> []"
proof (induction n xs rule: batches.induct)
  case (1 batch_size xs)
  show ?case
  proof (cases "batch_size = 0 \<or> xs = []")
    case True
    with 1(2) show ?thesis by (simp add: batches.simps)
  next
    case False
    with 1(2) have "b = take batch_size xs \<or> b \<in> set (batches batch_size (drop batch_size xs))"
      by (subst (asm) batches.simps) auto
    with False 1(1) show ?thesis by auto
  qed
qed

lemma concat_chunks_nth:
  assumes "0 < n" and "list_all2 (\<lambda>b s. length s = length b) (batches n xs) ss"
    and "j < length xs"
  shows "j div n < length ss \<and> j mod n < length (ss ! (j div n)) \<and>
         concat ss ! j = ss ! (j div n) ! (j mod n)"
  using assms
proof (induction n xs arbitrary: ss j rule: batches.induct)
  case (1 n xs)
  from "1.prems"(3) have ne: "xs \<noteq> []" by auto
  with "1.prems"(1) have b: "batches n xs = take n xs # batches n (drop n xs)"
    by (subst batches.simps) simp
  with "1.prems"(2) obtain s ss' where ss: "ss = s # ss'"
    and ls: "length s = length (take n xs)"
    and rest: "list_all2 (\<lambda>b s. length s = length b) (batches n (drop n xs)) ss'"
    by (auto simp: list_all2_Cons1)
  show ?case
  proof (cases "j < n")
    case True
    with "1.prems"(3) ls have "j < length s" by simp
    with True ss show ?thesis by (simp add: nth_append)
  next
    case False
    with "1.prems"(3) have lx: "n \<le> length xs" by simp
    with ls have lsn: "length s = n" by simp
    from False "1.prems"(3) have j': "j - n < length (drop n xs)" by simp
    from "1.prems"(1) ne have c: "\<not> (n = 0 \<or> xs = [])" by simp
    from "1.IH" [OF c "1.prems"(1) rest j']
    have ih: "(j - n) div n < length ss'" "(j - n) mod n < length (ss' ! ((j - n) div n))"
      "concat ss' ! (j - n) = ss' ! ((j - n) div n) ! ((j - n) mod n)" by auto
    from False "1.prems"(1) have d: "j div n = Suc ((j - n) div n)" and m: "j mod n = (j - n) mod n"
      by (simp_all add: le_div_geq le_mod_geq)
    from False lsn have "concat ss ! j = concat ss' ! (j - n)"
      by (simp add: ss nth_append)
    with ih d m ss show ?thesis by simp
  qed
qed

lemma batches_nth:
  assumes "0 < n" and "j < length xs"
  shows "j div n < length (batches n xs) \<and> j mod n < length (batches n xs ! (j div n)) \<and>
         batches n xs ! (j div n) ! (j mod n) = xs ! j"
proof -
  have "list_all2 (\<lambda>b s. length s = length b) (batches n xs) (batches n xs)"
    by (simp add: list_all2_conv_all_nth)
  from concat_chunks_nth [OF assms(1) this assms(2)] concat_batches [OF assms(1), of xs]
  show ?thesis by simp
qed

subsection \<open>The collated batch of the synchronous path\<close>

lemma set_pad_side: "set (pad_side s row r) = set row \<union> set r"
  by (cases s) (auto simp: pad_side_def)

lemma tokenizer_pad_no_labels:
  assumes ne: "fs \<noteq> []"
    and fl: "list_all (\<lambda>f. labels f = None \<and> length (attention_mask f) = length (input_ids f)) fs"
    and m: "0 < m"
  shows "tokenizer_pad tk fs max_length m =
           Inr \<lparr> t_input_ids =
                   map (\<lambda>f. pad_side (padding_side tk) (input_ids f)
                          (replicate
                             (round_up_to_multiple m (max_list (map (\<lambda>f. length (input_ids f)) fs))
                                - length (input_ids f))
                             (pad_token_id tk))) fs,
                 t_attention_mask =
                   map (\<lambda>f. pad_side (padding_side tk) (attention_mask f)
                          (replicate
                             (round_up_to_multiple m (max_list (map (\<lambda>f. length (input_ids f)) fs))
                                - length (input_ids f))
                             0)) fs,
                 t_labels = None \<rparr>"
proof -
  let ?N = "round_up_to_multiple m (max_list (map (\<lambda>f. length (input_ids f)) fs))"
  have le: "length (input_ids f) \<le> ?N" if "f \<in> set fs" for f
  proof -
    from that have "length (input_ids f) \<le> max_list (map (\<lambda>f. length (input_ids f)) fs)"
      by (intro max_list_ge) auto
    moreover have "max_list (map (\<lambda>f. length (input_ids f)) fs) \<le> ?N"
      using round_up_least [OF m] by blast
    ultimately show ?thesis by simp
  qed
  let ?masks = "map (\<lambda>f. pad_side (padding_side tk) (attention_mask f)
                        (replicate (?N - length (input_ids f)) 0)) fs"
  have "list_all (\<lambda>row. length row = ?N) ?masks"
    using fl le by (auto simp: list_all_iff length_pad_side)
  then have rm: "rectangular ?masks" by (rule rectangular_all_length)
  from ne obtain first rest where fr: "fs = first # rest" by (cases fs) auto
  with fl have l0: "labels first = None" by simp
  show ?thesis
    unfolding tokenizer_pad_def fr [symmetric]
    using rm by (simp add: fr l0 Let_def)
qed

lemma sync_item_ids_nonempty:
  "input_ids (fst (sync_item tk ml P S E pair)) \<noteq> []"
  by (simp add: sync_item_def Let_def prepare_for_model_def)

lemma sync_item_mask:
  "attention_mask (fst (sync_item tk ml P S E pair))
     = replicate (length (input_ids (fst (sync_item tk ml P S E pair)))) 1"
  by (simp add: sync_item_def Let_def)

lemma sync_batch_inputs_wf:
  assumes ne: "b \<noteq> []"
  shows "\<exists>c N ql pl.
           sync_batch_inputs self ml P S E b = Inr (c, ql, pl) \<and>
           wf_inputs (length b) N c \<and>
           t_input_ids c =
             map (\<lambda>pair. pad_side (padding_side (tokenizer self))
                    (input_ids (fst (sync_item (tokenizer self) ml P S E pair)))
                    (replicate (N - length (input_ids (fst (sync_item (tokenizer self) ml P S E pair))))
                       (pad_token_id (tokenizer self)))) b"
proof -
  let ?tk = "tokenizer self"
  let ?item = "\<lambda>pair. fst (sync_item ?tk ml P S E pair)"
  let ?fs = "map (\<lambda>pair. \<lparr> input_ids = input_ids (?item pair),
                             attention_mask = attention_mask (?item pair), labels = None \<rparr>) b"
  let ?N = "round_up_to_multiple 8 (max_list (map (\<lambda>f. length (input_ids f)) ?fs))"
  let ?ql = "map (\<lambda>item. fst (snd item)) (map (sync_item ?tk ml P S E) b)"
  let ?pl = "map (\<lambda>item. snd (snd item)) (map (sync_item ?tk ml P S E) b)"
  have fne: "?fs \<noteq> []" using ne by simp
  have fl: "list_all (\<lambda>f. labels f = None \<and> length (attention_mask f) = length (input_ids f)) ?fs"
    by (simp add: list_all_iff sync_item_mask)
  from ne obtain p0 rest where b: "b = p0 # rest" by (cases b) auto
  have pl: "pad_labels ?tk ?fs = Inr ?fs"
    by (simp add: pad_labels_def b)
  have m8: "(0::nat) < 8" by simp
  note tp = tokenizer_pad_no_labels [OF fne fl m8, of ?tk ml]
  let ?c = "\<lparr> t_input_ids =
                   map (\<lambda>f. pad_side (padding_side ?tk) (input_ids f)
                          (replicate (?N - length (input_ids f)) (pad_token_id ?tk))) ?fs,
                 t_attention_mask =
                   map (\<lambda>f. pad_side (padding_side ?tk) (attention_mask f)
                          (replicate (?N - length (input_ids f)) 0)) ?fs,
                 t_labels = None \<rparr>"
  have col: "collater ?tk ml (Columns ?fs ?ql ?pl) = Inr (?c, ?ql, ?pl)"
    using pl tp by (simp add: collater_def)
  have sb: "sync_batch_inputs self ml P S E b = Inr (?c, ?ql, ?pl)"
    using col by (simp add: sync_batch_inputs_def Let_def comp_def)
  define N where "N = ?N"
  have lens: "map (\<lambda>f. length (input_ids f)) ?fs
      = map (\<lambda>pair. length (input_ids (?item pair))) b"
    by (simp add: comp_def)
  have le: "length (input_ids (?item pair)) \<le> N" if "pair \<in> set b" for pair
  proof -
    from that have "length (input_ids (?item pair))
        \<in> set (map (\<lambda>pair. length (input_ids (?item pair))) b)" by auto
    then have "length (input_ids (?item pair))
        \<le> max_list (map (\<lambda>f. length (input_ids f)) ?fs)"
      unfolding lens by (rule max_list_ge)
    moreover have "max_list (map (\<lambda>f. length (input_ids f)) ?fs) \<le> ?N"
      using round_up_least [OF m8] by blast
    ultimately show ?thesis by (simp only: N_def)
  qed
  have Npos: "0 < N"
  proof -
    from le [of p0] b have "length (input_ids (?item p0)) \<le> N" by simp
    moreover have "0 < length (input_ids (?item p0))"
      using sync_item_ids_nonempty [of ?tk ml P S E p0] by simp
    ultimately show ?thesis by linarith
  qed
  have ids: "t_input_ids ?c =
             map (\<lambda>pair. pad_side (padding_side ?tk) (input_ids (?item pair))
                    (replicate (N - length (input_ids (?item pair))) (pad_token_id ?tk))) b"
    by (simp add: comp_def N_def)
  have msk: "t_attention_mask ?c =
             map (\<lambda>pair. pad_side (padding_side ?tk)
                    (replicate (length (input_ids (?item pair))) 1)
                    (replicate (N - length (input_ids (?item pair))) 0)) b"
    by (simp add: comp_def N_def sync_item_mask)
  have sh1: "has_shape (length b) N (t_input_ids ?c)"
    unfolding ids has_shape_def list_all_iff using le by (auto simp: length_pad_side)
  have sh2: "has_shape (length b) N (t_attention_mask ?c)"
    unfolding msk has_shape_def list_all_iff using le by (auto simp: length_pad_side)
  have im: "is_mask (t_attention_mask ?c)"
    unfolding msk is_mask_def list_all_iff by (auto simp: set_pad_side)
  have wf: "wf_inputs (length b) N ?c"
    using ne Npos sh1 sh2 im by (simp add: wf_inputs_def)
  from sb wf ids show ?thesis by blast
qed

subsection \<open>One batch through the backend and the extractor\<close>

lemma last_logit_pool_rows:
  assumes "layer_ok B lg am"
  shows "\<exists>out. last_logit_pool lg am = Inr out \<and> length out = B \<and>
           (\<forall>r<B. out ! r \<in> set (lg ! r))"
proof -
  from assms obtain row rest where am: "am = row # rest"
    by (cases am) (auto simp: layer_ok_def)
  let ?L = "length row"
  from assms am have s1: "has_shape B ?L lg" and s2: "has_shape B ?L am" and m: "is_mask am"
    and L: "0 < ?L" by (simp_all add: layer_ok_def)
  from s1 have len: "length lg = B" and rows: "\<And>r. r < B \<Longrightarrow> length (lg ! r) = ?L"
    by (auto simp: has_shape_def list_all_length)
  from s2 m have mrows: "\<And>r. r < B \<Longrightarrow> length (am ! r) = ?L \<and>
      list_all (\<lambda>x. x = 0 \<or> x = 1) (am ! r)"
    by (auto simp: has_shape_def is_mask_def list_all_length)
  show ?thesis
  proof (cases "sum_list (map last am) = int B")
    case True
    from last_logit_pool_left [OF s1 s2 L True]
    have p: "last_logit_pool lg am = Inr (map last lg)" .
    have "map last lg ! r \<in> set (lg ! r)" if "r < B" for r
      using that len rows [OF that] L by (simp add: last_in_set length_greater_0_conv [symmetric]
          del: length_greater_0_conv)
    with p len show ?thesis by simp
  next
    case False
    let ?out = "map (\<lambda>i. if sum_list (am ! i) = 0 then last (lg ! i)
                          else lg ! i ! nat (sum_list (am ! i) - 1)) [0..<B]"
    from last_logit_pool_right [OF s1 s2 m L False]
    have p: "last_logit_pool lg am = Inr ?out" .
    have "?out ! r \<in> set (lg ! r)" if r: "r < B" for r
    proof (cases "sum_list (am ! r) = 0")
      case True
      from rows [OF r] L have "lg ! r \<noteq> []" by auto
      with True r show ?thesis by simp
    next
      case False
      from mrows [OF r] mask_row_sum_bounds [of "am ! r"]
      have "0 \<le> sum_list (am ! r)" "sum_list (am ! r) \<le> int ?L" by auto
      with False have "nat (sum_list (am ! r) - 1) < ?L" by linarith
      with rows [OF r] False r show ?thesis by simp
    qed
    with p show ?thesis by simp
  qed
qed

lemma standard_batch:
  assumes wf: "wf_inputs B N c" and ok: "standard_backend_ok self"
  shows "\<exists>outputs pooled s.
           call_model self c ql pl = Inr outputs \<and>
           last_logit_pool (logits outputs) (t_attention_mask c) = Inr pooled \<and>
           standard_scores self outputs (t_attention_mask c) = Inr s \<and>
           length s = B \<and> (\<forall>r<B. py_index (pooled ! r) (yes_loc self) = Inr (s ! r))"
proof -
  let ?inp = "\<lparr> mi_inputs = c, mi_compress_layer = compress_layer self,
                 mi_compress_ratio = compress_ratio self, mi_query_lengths = ql,
                 mi_prompt_lengths = pl, mi_cutoff_layers = cutoff_layers self \<rparr>"
  from wf have "wf_inputs B N (mi_inputs ?inp)" by simp
  with ok obtain outputs where mo: "model self ?inp = Inr outputs"
    and sh: "has_shape B N (logits outputs)"
    and voc: "list_all (list_all (\<lambda>v. 0 \<le> yes_loc self \<and> yes_loc self < int (length v)))
                (logits outputs)"
    unfolding standard_backend_ok_def by blast
  from mo have cm: "call_model self c ql pl = Inr outputs" by (simp add: call_model_def)
  from wf have B: "0 < B" and Np: "0 < N" and ms: "has_shape B N (t_attention_mask c)"
    and im: "is_mask (t_attention_mask c)" by (simp_all add: wf_inputs_def)
  from ms B obtain row rest where am: "t_attention_mask c = row # rest" and lr: "length row = N"
    by (cases "t_attention_mask c") (auto simp: has_shape_def)
  have lok: "layer_ok B (logits outputs) (t_attention_mask c)"
    using sh ms im Np am lr by (simp add: layer_ok_def)
  from last_logit_pool_rows [OF lok] obtain pooled where
    p: "last_logit_pool (logits outputs) (t_attention_mask c) = Inr pooled"
    and lp: "length pooled = B" and mem: "\<forall>r<B. pooled ! r \<in> set (logits outputs ! r)" by blast
  from sh have lo: "length (logits outputs) = B" by (simp add: has_shape_def)
  have inr: "py_index v (yes_loc self) = Inr (v ! nat (yes_loc self))" if "v \<in> set pooled" for v
  proof -
    from that lp obtain r where r: "r < B" "pooled ! r = v" by (auto simp: in_set_conv_nth)
    with mem have "v \<in> set (logits outputs ! r)" by auto
    moreover from r lo have "logits outputs ! r \<in> set (logits outputs)" by simp
    ultimately have "0 \<le> yes_loc self \<and> yes_loc self < int (length v)"
      using voc by (auto simp: list_all_iff)
    then show ?thesis by (simp add: py_index_def)
  qed
  have mr: "map_result (\<lambda>row. py_index row (yes_loc self)) pooled
              = Inr (map (\<lambda>v. v ! nat (yes_loc self)) pooled)"
    by (rule map_result_Inr) (rule inr)
  have ss: "standard_scores self outputs (t_attention_mask c)
              = Inr (map (\<lambda>v. v ! nat (yes_loc self)) pooled)"
    using p mr by (simp add: standard_scores_def)
  have "py_index (pooled ! r) (yes_loc self) = Inr (map (\<lambda>v. v ! nat (yes_loc self)) pooled ! r)"
    if "r < B" for r
    using that lp inr [of "pooled ! r"] by simp
  with cm p ss lp show ?thesis by auto
qed


subsection \<open>One iteration of the synchronous loop\<close>

lemma sync_forward_rows:
  assumes ne: "b \<noteq> []" and sf: "sync_forward self ml P S E b = Inr (c, outputs)"
  shows "\<exists>N. wf_inputs (length b) N c \<and>
           (\<forall>r<length b.
              t_input_ids c ! r =
                pad_side (padding_side (tokenizer self))
                  (input_ids (fst (sync_item (tokenizer self) ml P S E (b ! r))))
                  (replicate
                     (length (t_input_ids c ! r)
                        - length (input_ids (fst (sync_item (tokenizer self) ml P S E (b ! r)))))
                     (pad_token_id (tokenizer self))))"
proof -
  from sync_batch_inputs_wf [OF ne, of self ml P S E] obtain c' N ql pl where
    sb: "sync_batch_inputs self ml P S E b = Inr (c', ql, pl)"
    and wf: "wf_inputs (length b) N c'"
    and ids: "t_input_ids c' =
             map (\<lambda>pair. pad_side (padding_side (tokenizer self))
                    (input_ids (fst (sync_item (tokenizer self) ml P S E pair)))
                    (replicate (N - length (input_ids (fst (sync_item (tokenizer self) ml P S E pair))))
                       (pad_token_id (tokenizer self)))) b"
    by blast
  from sf sb have cc: "c' = c"
    by (auto simp: sync_forward_def bind_result_Inr_iff)
  from wf have rows: "\<And>r. r < length b \<Longrightarrow> length (t_input_ids c' ! r) = N"
    by (auto simp: wf_inputs_def has_shape_def list_all_length)
  have "t_input_ids c' ! r =
          pad_side (padding_side (tokenizer self))
            (input_ids (fst (sync_item (tokenizer self) ml P S E (b ! r))))
            (replicate
               (length (t_input_ids c' ! r)
                  - length (input_ids (fst (sync_item (tokenizer self) ml P S E (b ! r)))))
               (pad_token_id (tokenizer self)))"
    if r: "r < length b" for r
  proof -
    from ids r have "t_input_ids c' ! r =
          pad_side (padding_side (tokenizer self))
            (input_ids (fst (sync_item (tokenizer self) ml P S E (b ! r))))
            (replicate (N - length (input_ids (fst (sync_item (tokenizer self) ml P S E (b ! r)))))
               (pad_token_id (tokenizer self)))"
      by simp
    with rows [OF r] show ?thesis by simp
  qed
  with wf cc show ?thesis by blast
qed

lemma sync_forward_total:
  assumes ne: "b \<noteq> []"
    and ok: "\<And>c N ql pl. wf_inputs (length b) N c \<Longrightarrow> \<exists>outputs. call_model self c ql pl = Inr outputs"
  shows "\<exists>c outputs. sync_forward self ml P S E b = Inr (c, outputs)"
proof -
  from sync_batch_inputs_wf [OF ne, of self ml P S E] obtain c N ql pl where
    sb: "sync_batch_inputs self ml P S E b = Inr (c, ql, pl)"
    and wf: "wf_inputs (length b) N c" by blast
  from ok [OF wf, of ql pl] obtain outputs where "call_model self c ql pl = Inr outputs" by blast
  with sb show ?thesis by (simp add: sync_forward_def)
qed

lemma sync_forward_call:
  assumes "sync_forward self ml P S E b = Inr (c, outputs)"
  shows "\<exists>ql pl. call_model self c ql pl = Inr outputs"
  using assms by (auto simp: sync_forward_def bind_result_Inr_iff)

lemma standard_iteration:
  assumes ne: "b \<noteq> []" and ok: "standard_backend_ok self"
  shows "\<exists>c outputs pooled s.
           sync_forward self ml P S E b = Inr (c, outputs) \<and>
           last_logit_pool (logits outputs) (t_attention_mask c) = Inr pooled \<and>
           standard_scores self outputs (t_attention_mask c) = Inr s \<and>
           length s = length b \<and>
           (\<forall>r<length b. py_index (pooled ! r) (yes_loc self) = Inr (s ! r))"
proof -
  have "\<exists>outputs. call_model self c N' pl = Inr outputs" if "wf_inputs (length b) N c"
    for c N N' pl
    using standard_batch [OF that ok, of N' pl] by blast
  then have "\<exists>c outputs. sync_forward self ml P S E b = Inr (c, outputs)"
    by (intro sync_forward_total [OF ne]) blast
  then obtain c outputs where sf: "sync_forward self ml P S E b = Inr (c, outputs)" by blast
  from sync_forward_rows [OF ne sf] obtain N where wf: "wf_inputs (length b) N c" by blast
  from sync_forward_call [OF sf] obtain ql pl where cm: "call_model self c ql pl = Inr outputs"
    by blast
  from standard_batch [OF wf ok, of ql pl] cm sf show ?thesis by auto
qed


subsection \<open>The loops\<close>

lemma sync_loop_standard:
  assumes std: "\<not> layer_wise self"
    and each: "\<And>b. b \<in> set bl \<Longrightarrow>
                 \<exists>r s. sync_forward self ml P S E b = Inr r \<and>
                       standard_scores self (snd r) (t_attention_mask (fst r)) = Inr s"
  shows "\<exists>ss. list_all2 (\<lambda>b s. \<exists>r. sync_forward self ml P S E b = Inr r \<and>
                    standard_scores self (snd r) (t_attention_mask (fst r)) = Inr s) bl ss \<and>
              sync_loop self ml P S E (Scores acc) bl = Inr (Scores (acc @ concat ss))"
  using each
proof (induction bl arbitrary: acc)
  case Nil
  then show ?case by simp
next
  case (Cons b bl)
  from Cons.prems [of b] obtain r s where r: "sync_forward self ml P S E b = Inr r"
    and s: "standard_scores self (snd r) (t_attention_mask (fst r)) = Inr s" by auto
  have c: "collect_scores self (Scores acc) (snd r) (t_attention_mask (fst r))
             = Inr (Scores (acc @ s))"
    using std s by (simp add: collect_scores_def)
  have "\<And>b'. b' \<in> set bl \<Longrightarrow>
          \<exists>r s. sync_forward self ml P S E b' = Inr r \<and>
                standard_scores self (snd r) (t_attention_mask (fst r)) = Inr s"
    using Cons.prems by simp
  from Cons.IH [OF this, of "acc @ s"] obtain ss where
    l2: "list_all2 (\<lambda>b s. \<exists>r. sync_forward self ml P S E b = Inr r \<and>
                    standard_scores self (snd r) (t_attention_mask (fst r)) = Inr s) bl ss"
    and lp: "sync_loop self ml P S E (Scores (acc @ s)) bl = Inr (Scores ((acc @ s) @ concat ss))"
    by blast
  have "list_all2 (\<lambda>b s. \<exists>r. sync_forward self ml P S E b = Inr r \<and>
                    standard_scores self (snd r) (t_attention_mask (fst r)) = Inr s)
          (b # bl) (s # ss)"
    using l2 r s by (cases r) auto
  moreover have "sync_loop self ml P S E (Scores acc) (b # bl)
      = Inr (Scores (acc @ concat (s # ss)))"
    using r c lp by simp
  ultimately show ?case by blast
qed



subsection \<open>Restoring the order\<close>

lemma restore_order_standard:
  assumes std: "\<not> layer_wise self" and ix: "\<And>j. j \<in> set ix \<Longrightarrow> j < length xs"
  shows "restore_order self (Scores xs) ix = Inr (Scores (map (\<lambda>idx. xs ! idx) ix))"
proof -
  have "map_result (\<lambda>idx. py_index xs (int idx)) ix = Inr (map (\<lambda>idx. xs ! idx) ix)"
    by (rule map_result_Inr) (use ix in \<open>simp add: py_index_nat\<close>)
  with std show ?thesis by (simp add: restore_order_def)
qed


subsection \<open>The scores of the sorted list\<close>

lemma length_concat_chunks:
  "list_all2 (\<lambda>b s. length s = length b) bl ss \<Longrightarrow> length (concat ss) = length (concat bl)"
  by (induction rule: list_all2_induct) auto

lemma sync_run_rows:
  assumes ne: "b \<noteq> []" and sr: "sync_run self ml b = Inr (c, outputs)" and r: "r < length b"
  shows "is_padded (tokenizer self) (input_ids (sync_built self ml (b ! r))) (t_input_ids c ! r)"
  using sync_forward_rows [OF ne sr [unfolded sync_run_def]] r
  by (auto simp: is_padded_def sync_built_def)

lemma sync_scores_standard:
  assumes std: "\<not> layer_wise self" and n: "0 < n" and ok: "standard_backend_ok self"
  shows "\<exists>all_scores.
           sync_scores self xs n ml prompt = Inr (Scores all_scores) \<and>
           length all_scores = length xs \<and>
           (\<forall>j<length xs.
              \<exists>c outputs pooled.
                sync_run self ml (batches n xs ! (j div n)) = Inr (c, outputs) \<and>
                is_padded (tokenizer self) (input_ids (sync_built self ml (xs ! j)))
                  (t_input_ids c ! (j mod n)) \<and>
                last_logit_pool (logits outputs) (t_attention_mask c) = Inr pooled \<and>
                py_index (pooled ! (j mod n)) (yes_loc self) = Inr (all_scores ! j))"
proof -
  let ?P = "encode (tokenizer self) default_prompt"
  let ?S = "encode (tokenizer self) sep"
  let ?E = "sync_budget self ml"
  let ?bl = "batches n xs"
  have it: "\<exists>c outputs pooled s.
           sync_forward self ml ?P ?S ?E b = Inr (c, outputs) \<and>
           last_logit_pool (logits outputs) (t_attention_mask c) = Inr pooled \<and>
           standard_scores self outputs (t_attention_mask c) = Inr s \<and>
           length s = length b \<and>
           (\<forall>r<length b. py_index (pooled ! r) (yes_loc self) = Inr (s ! r))"
    if "b \<in> set ?bl" for b
    using standard_iteration [OF batches_member_nonempty [OF that] ok] by blast
  have each: "\<exists>r s. sync_forward self ml ?P ?S ?E b = Inr r \<and>
                 standard_scores self (snd r) (t_attention_mask (fst r)) = Inr s"
    if "b \<in> set ?bl" for b
    using it [OF that] by force
  from sync_loop_standard [where bl = ?bl and acc = "[]", OF std each] obtain ss where
    l2: "list_all2 (\<lambda>b s. \<exists>r. sync_forward self ml ?P ?S ?E b = Inr r \<and>
                    standard_scores self (snd r) (t_attention_mask (fst r)) = Inr s) ?bl ss"
    and lp0: "sync_loop self ml ?P ?S ?E (Scores []) ?bl = Inr (Scores ([] @ concat ss))"
    by blast
  from lp0 have lp: "sync_loop self ml ?P ?S ?E (Scores []) ?bl = Inr (Scores (concat ss))"
    by simp
  have sc: "sync_scores self xs n ml prompt = Inr (Scores (concat ss))"
    using lp n std by (simp add: sync_scores_def Let_def init_scores_def sync_budget_def)
  from l2 have ll: "length ss = length ?bl" by (simp add: list_all2_lengthD)
  have at: "\<exists>c outputs pooled.
           sync_forward self ml ?P ?S ?E (?bl ! m) = Inr (c, outputs) \<and>
           last_logit_pool (logits outputs) (t_attention_mask c) = Inr pooled \<and>
           length (ss ! m) = length (?bl ! m) \<and>
           (\<forall>r<length (?bl ! m). py_index (pooled ! r) (yes_loc self) = Inr (ss ! m ! r))"
    if m: "m < length ?bl" for m
  proof -
    from m have mem: "?bl ! m \<in> set ?bl" by simp
    from it [OF mem] obtain c outputs pooled s where
      a: "sync_forward self ml ?P ?S ?E (?bl ! m) = Inr (c, outputs)"
      and b: "last_logit_pool (logits outputs) (t_attention_mask c) = Inr pooled"
      and c: "standard_scores self outputs (t_attention_mask c) = Inr s"
      and d: "length s = length (?bl ! m)"
      and e: "\<forall>r<length (?bl ! m). py_index (pooled ! r) (yes_loc self) = Inr (s ! r)"
      by blast
    from l2 m have "\<exists>r. sync_forward self ml ?P ?S ?E (?bl ! m) = Inr r \<and>
        standard_scores self (snd r) (t_attention_mask (fst r)) = Inr (ss ! m)"
      by (simp add: list_all2_conv_all_nth)
    with a c have "ss ! m = s" by auto
    with a b d e show ?thesis by blast
  qed
  have lens: "list_all2 (\<lambda>b s. length s = length b) ?bl ss"
    using ll at by (auto simp: list_all2_conv_all_nth)
  from length_concat_chunks [OF lens] concat_batches [OF n, of xs]
  have len: "length (concat ss) = length xs" by simp
  have "\<exists>c outputs pooled.
          sync_run self ml (?bl ! (j div n)) = Inr (c, outputs) \<and>
          is_padded (tokenizer self) (input_ids (sync_built self ml (xs ! j)))
            (t_input_ids c ! (j mod n)) \<and>
          last_logit_pool (logits outputs) (t_attention_mask c) = Inr pooled \<and>
          py_index (pooled ! (j mod n)) (yes_loc self) = Inr (concat ss ! j)"
    if j: "j < length xs" for j
  proof -
    from batches_nth [OF n j] have m: "j div n < length ?bl"
      and r: "j mod n < length (?bl ! (j div n))"
      and x: "?bl ! (j div n) ! (j mod n) = xs ! j" by auto
    from concat_chunks_nth [OF n lens j]
    have cj: "concat ss ! j = ss ! (j div n) ! (j mod n)" by simp
    from at [OF m] obtain c outputs pooled where
      a: "sync_forward self ml ?P ?S ?E (?bl ! (j div n)) = Inr (c, outputs)"
      and b: "last_logit_pool (logits outputs) (t_attention_mask c) = Inr pooled"
      and e: "\<forall>r<length (?bl ! (j div n)).
                py_index (pooled ! r) (yes_loc self) = Inr (ss ! (j div n) ! r)"
      by blast
    from a have sr: "sync_run self ml (?bl ! (j div n)) = Inr (c, outputs)"
      by (simp add: sync_run_def)
    from m have "?bl ! (j div n) \<in> set ?bl" by simp
    then have ne: "?bl ! (j div n) \<noteq> []" by (rule batches_member_nonempty)
    from sync_run_rows [OF ne sr r] x
    have p: "is_padded (tokenizer self) (input_ids (sync_built self ml (xs ! j)))
               (t_input_ids c ! (j mod n))" by simp
    from e r cj have "py_index (pooled ! (j mod n)) (yes_loc self) = Inr (concat ss ! j)"
      by simp
    with sr p b show ?thesis by blast
  qed
  with sc len show ?thesis by blast
qed


lemma normalize_pairs_list: "pairs \<noteq> [] \<Longrightarrow> normalize_pairs (PairList pairs) = Inr pairs"
  by (cases pairs) (simp_all add: normalize_pairs_def)

subsection \<open>The data loader path, the synchronous builder and the examples\<close>

lemma length_prepare_for_model:
  "int (length (prepare_for_model tk ids pair_ids m)) =
     (if m \<noteq> 0 \<and> int (length ids) + int (length pair_ids) > m \<and>
         int (length pair_ids) > int (length ids) + int (length pair_ids) - m
      then m else int (length ids) + int (length pair_ids))"
proof -
  define a where "a = length ids"
  define b where "b = length pair_ids"
  have "int a + int (b - nat (int a + int b - m)) = m"
    if "int a + int b > m" "int b > int a + int b - m"
    using that by linarith
  then show ?thesis
    by (simp add: prepare_for_model_def Let_def length_remove_tokens a_def b_def)
qed

lemma sync_item_exceeds_max_length:
  assumes long: "max_length \<le> length (encode tk (''B: '' @ passage))"
    and sp: "encode tk sep \<noteq> []"
  shows "max_length < length (input_ids (fst (sync_item tk max_length
           (encode tk default_prompt) (encode tk sep)
           (int max_length + int (length (encode tk sep)) + int (length (encode tk default_prompt)))
           (query, passage))))"
proof -
  let ?P = "encode tk default_prompt" and ?S = "encode tk sep"
  let ?E = "int max_length + int (length ?S) + int (length ?P)"
  let ?ids = "bos_token_id tk # tokenize tk (''A: '' @ query) 32"
  let ?pass = "tokenize tk (''B: '' @ passage) max_length"
  let ?pair = "?S @ ?pass"
  have lp: "length ?pass = max_length"
    using long by (simp add: tokenize_def length_remove_tokens)
  have a: "max_length \<le> length (prepare_for_model tk ?ids ?pair ?E)"
  proof -
    have "int max_length \<le> int (length (prepare_for_model tk ?ids ?pair ?E))"
      using lp by (simp add: length_prepare_for_model)
    then show ?thesis by linarith
  qed
  have b: "length (input_ids (fst (sync_item tk max_length ?P ?S ?E (query, passage))))
      = length (prepare_for_model tk ?ids ?pair ?E) + length ?S + length ?P"
    by (simp add: sync_item_def Let_def)
  from sp have c: "0 < length ?S" by simp
  from a b c show ?thesis by linarith
qed

lemma standard_reranker_ok: "standard_backend_ok standard_reranker"
  by (auto simp: standard_backend_ok_def standard_reranker_def standard_backend_def
      wf_inputs_def has_shape_def prefix_sums_def list_all_iff)


lemma compute_score_distinct_keys:
  assumes va: "valid_argsort np_argsort" and np: "normalize_pairs sentence_pairs = Inr pairs"
    and dk: "distinct (map (\<lambda>pair. - text_length (fst pair) - text_length (snd pair)) pairs)"
  shows "compute_score np_argsort self sentence_pairs batch_size max_length prompt normalize_arg
           use_dataloader
         = compute_score stable_argsort self sentence_pairs batch_size max_length prompt
             normalize_arg use_dataloader"
proof -
  have e1: "length_sorted_idx np_argsort pairs = length_sorted_idx stable_argsort pairs"
    unfolding length_sorted_idx_def by (rule valid_argsort_unique [OF va dk])
  have "distinct (map int (length_sorted_idx stable_argsort pairs))"
    using length_sorted_idx_perm(2) [OF stable_argsort_valid, of pairs]
    by (simp add: distinct_map)
  from valid_argsort_unique [OF va this]
  have e2: "np_argsort (map int (length_sorted_idx stable_argsort pairs))
      = stable_argsort (map int (length_sorted_idx stable_argsort pairs))" .
  show ?thesis by (simp add: compute_score_def np e1 e2)
qed

lemma dataloader_loop_raises:
  "\<exists>e. dataloader_loop self ds max_length all_scores (indices # rest) = Inl e"
proof (cases "map_result (dataset_item ds) indices")
  case (Inl e)
  then show ?thesis by simp
next
  case (Inr samples)
  have "\<exists>e. collater (tokenizer self) max_length (Samples samples) = Inl e"
    by (simp add: collater_def)
  with Inr show ?thesis by auto
qed

lemma dataloader_path_always_raises:
  assumes va: "valid_argsort np_argsort"
  shows "\<exists>e. compute_score np_argsort self sentence_pairs batch_size max_length prompt
               normalize_arg True = Inl e"
proof (cases "normalize_pairs sentence_pairs")
  case (Inl e)
  then show ?thesis by (simp add: compute_score_def)
next
  case (Inr pairs)
  then have ne: "pairs \<noteq> []"
    by (auto simp: normalize_pairs_def split: sentence_pairs.splits list.splits)
  let ?sorted = "sentences_sorted np_argsort pairs"
  have "length ?sorted = length pairs"
    using length_sorted_idx_perm(1) [OF va, of pairs] by (simp add: sentences_sorted_def)
  with ne have up: "map int [0..<length ?sorted] \<noteq> []" by auto
  have "\<exists>e. dataloader_scores self ?sorted batch_size max_length prompt = Inl e"
  proof (cases "batch_size = 0")
    case True
    then show ?thesis by (simp add: dataloader_scores_def)
  next
    case False
    with up obtain b rest where
      "batches batch_size (map int [0..<length ?sorted]) = b # rest"
      using batches_nonempty [of batch_size "map int [0..<length ?sorted]"]
      by (cases "batches batch_size (map int [0..<length ?sorted])") auto
    with False dataloader_loop_raises show ?thesis
      by (simp add: dataloader_scores_def Let_def)
  qed
  with Inr sort_sentences_valid [OF va, of pairs] show ?thesis
    by (auto simp: compute_score_def collect_all_def)
qed

lemma example_keys_distinct:
  "distinct (map (\<lambda>pair. - text_length (fst pair) - text_length (snd pair)) example_pairs)"
  by code_simp

lemma example_sync_scores:
  "compute_score stable_argsort standard_reranker (PairList example_pairs) 2 512 None False False
     = Inr (Scores [7721, 8847, 5755])"
  by code_simp

lemma example_dataloader:
  "compute_score stable_argsort standard_reranker (PairList example_pairs) 2 512 None False True
     = Inl IndexError"
  by code_simp

lemma rotated_sync_scores:
  "compute_score stable_argsort standard_reranker (PairList rotated_pairs) 2 512 None False False
     = Inr (Scores [5755, 8847, 7721])"
  by code_simp


lemma rotated_inverse:
  "length_sorted_idx stable_argsort rotated_pairs = [1, 2, 0] \<and>
   stable_argsort (map int (length_sorted_idx stable_argsort rotated_pairs)) = [2, 0, 1]"
  by code_simp

section \<open>Claims about the orchestrator\<close>

text \<open>
  C4. For every non-empty list of pairs on the synchronous path in standard mode, with a
  positive batch size, any sorting function that \<^verbatim>\<open>np.argsort\<close> may be and a backend
  that returns logits of the batch's shape, \<^verbatim>\<open>compute_score\<close> returns one score per
  pair, and the score at index \<open>i\<close> is the score of \<open>pairs[i]\<close>: with
  \<open>j = argsort(length_sorted_idx)[i]\<close> the sorted position of \<open>pairs[i]\<close>, row
  \<open>j mod batch_size\<close> of batch \<open>j div batch_size\<close> is \<open>pairs[i]\<close>, that row of the batch
  given to the backend is the sequence built for \<open>pairs[i]\<close> with its padding, and the
  result is the decision-token entry of the logits the extractor selects in that row of
  the backend's output.
\<close>

theorem compute_score_restores_order:
  assumes va: "valid_argsort np_argsort" and std: "\<not> layer_wise self"
    and bs: "0 < batch_size" and ne: "pairs \<noteq> []" and ok: "standard_backend_ok self"
  shows "\<exists>res.
           compute_score np_argsort self (PairList pairs) batch_size max_length prompt
             normalize_arg False = Inr (Scores res) \<and>
           length res = length pairs \<and>
           (\<forall>i<length pairs.
              \<exists>j<length pairs.
                j = np_argsort (map int (length_sorted_idx np_argsort pairs)) ! i \<and>
                length_sorted_idx np_argsort pairs ! j = i \<and>
                j mod batch_size
                  < length (batches batch_size (sentences_sorted np_argsort pairs)
                              ! (j div batch_size)) \<and>
                batches batch_size (sentences_sorted np_argsort pairs)
                  ! (j div batch_size) ! (j mod batch_size) = pairs ! i \<and>
                (\<exists>c outputs pooled.
                   sync_run self max_length
                     (batches batch_size (sentences_sorted np_argsort pairs) ! (j div batch_size))
                     = Inr (c, outputs) \<and>
                   is_padded (tokenizer self)
                     (input_ids (sync_built self max_length (pairs ! i)))
                     (t_input_ids c ! (j mod batch_size)) \<and>
                   last_logit_pool (logits outputs) (t_attention_mask c) = Inr pooled \<and>
                   py_index (pooled ! (j mod batch_size)) (yes_loc self) = Inr (res ! i)))"
proof -
  let ?sorted = "sentences_sorted np_argsort pairs"
  let ?ix = "np_argsort (map int (length_sorted_idx np_argsort pairs))"
  let ?bl = "batches batch_size ?sorted"
  have ls: "length ?sorted = length pairs"
    using length_sorted_idx_perm(1) [OF va, of pairs] by (simp add: sentences_sorted_def)
  from sync_scores_standard [OF std bs ok, of ?sorted max_length prompt] obtain all_scores where
    sc: "sync_scores self ?sorted batch_size max_length prompt = Inr (Scores all_scores)"
    and la: "length all_scores = length ?sorted"
    and el: "\<forall>j<length ?sorted.
              \<exists>c outputs pooled.
                sync_run self max_length (?bl ! (j div batch_size)) = Inr (c, outputs) \<and>
                is_padded (tokenizer self) (input_ids (sync_built self max_length (?sorted ! j)))
                  (t_input_ids c ! (j mod batch_size)) \<and>
                last_logit_pool (logits outputs) (t_attention_mask c) = Inr pooled \<and>
                py_index (pooled ! (j mod batch_size)) (yes_loc self) = Inr (all_scores ! j)"
    by blast
  have ixb: "j < length all_scores" if "j \<in> set ?ix" for j
    using that inverse_perm(2) [OF va, of pairs] la ls by simp
  let ?res = "map (\<lambda>idx. all_scores ! idx) ?ix"
  from restore_order_standard [OF std ixb]
  have ro: "restore_order self (Scores all_scores) ?ix = Inr (Scores ?res)" by simp
  have cs: "compute_score np_argsort self (PairList pairs) batch_size max_length prompt
              normalize_arg False = Inr (Scores ?res)"
    using normalize_pairs_list [OF ne] sort_sentences_valid [OF va, of pairs] sc ro
    by (simp add: compute_score_def collect_all_def)
  have lr: "length ?res = length pairs" using inverse_perm(1) [OF va, of pairs] by simp
  have "\<exists>j<length pairs.
          j = ?ix ! i \<and> length_sorted_idx np_argsort pairs ! j = i \<and>
          j mod batch_size < length (?bl ! (j div batch_size)) \<and>
          ?bl ! (j div batch_size) ! (j mod batch_size) = pairs ! i \<and>
          (\<exists>c outputs pooled.
             sync_run self max_length (?bl ! (j div batch_size)) = Inr (c, outputs) \<and>
             is_padded (tokenizer self) (input_ids (sync_built self max_length (pairs ! i)))
               (t_input_ids c ! (j mod batch_size)) \<and>
             last_logit_pool (logits outputs) (t_attention_mask c) = Inr pooled \<and>
             py_index (pooled ! (j mod batch_size)) (yes_loc self) = Inr (?res ! i))"
    if i: "i < length pairs" for i
  proof -
    from inverse_position [OF va i] have j: "?ix ! i < length pairs"
      and li: "length_sorted_idx np_argsort pairs ! (?ix ! i) = i"
      and sp: "?sorted ! (?ix ! i) = pairs ! i" by auto
    from j ls have js: "?ix ! i < length ?sorted" by simp
    from batches_nth [OF bs js] sp
    have r: "(?ix ! i) mod batch_size < length (?bl ! ((?ix ! i) div batch_size))"
      and x: "?bl ! ((?ix ! i) div batch_size) ! ((?ix ! i) mod batch_size) = pairs ! i"
      by auto
    from i lr have ri: "?res ! i = all_scores ! (?ix ! i)"
      using inverse_perm(1) [OF va, of pairs] by simp
    from el js sp ri
    have "\<exists>c outputs pooled.
             sync_run self max_length (?bl ! ((?ix ! i) div batch_size)) = Inr (c, outputs) \<and>
             is_padded (tokenizer self) (input_ids (sync_built self max_length (pairs ! i)))
               (t_input_ids c ! ((?ix ! i) mod batch_size)) \<and>
             last_logit_pool (logits outputs) (t_attention_mask c) = Inr pooled \<and>
             py_index (pooled ! ((?ix ! i) mod batch_size)) (yes_loc self) = Inr (?res ! i)"
      by (metis (no_types, lifting))
    with j li r x show ?thesis by blast
  qed
  with cs lr show ?thesis by blast
qed

theorem compute_score_restores_order_witness:
  "valid_argsort stable_argsort \<and> \<not> layer_wise standard_reranker \<and> (0::nat) < 2 \<and>
   rotated_pairs \<noteq> [] \<and> standard_backend_ok standard_reranker \<and>
   length_sorted_idx stable_argsort rotated_pairs = [1, 2, 0] \<and>
   stable_argsort (map int (length_sorted_idx stable_argsort rotated_pairs)) = [2, 0, 1] \<and>
   compute_score stable_argsort standard_reranker (PairList rotated_pairs) 2 512 None False False
     = Inr (Scores [5755, 8847, 7721])"
proof -
  have h2: "\<not> layer_wise standard_reranker" by (simp add: standard_reranker_def)
  have h3: "(0::nat) < 2" by simp
  have h4: "rotated_pairs \<noteq> []" by (simp add: rotated_pairs_def)
  note t = compute_score_restores_order [OF stable_argsort_valid h2 h3 h4 standard_reranker_ok,
      of 512 None False]
  from t rotated_sync_scores
  have e: "compute_score stable_argsort standard_reranker (PairList rotated_pairs) 2 512 None
      False False = Inr (Scores [5755, 8847, 7721])" by blast
  from stable_argsort_valid h2 h3 h4 standard_reranker_ok rotated_inverse e
  show ?thesis by blast
qed



text \<open>
  C7. \<^verbatim>\<open>compute_score\<close> returns the same result with \<open>normalize=True\<close> and with
  \<open>normalize=False\<close>, all other arguments fixed.
\<close>

theorem normalize_has_no_effect:
  "compute_score np_argsort self sentence_pairs batch_size max_length prompt True use_dataloader
     = compute_score np_argsort self sentence_pairs batch_size max_length prompt False
         use_dataloader"
  by (simp add: compute_score_def)

theorem normalize_has_no_effect_witness:
  "compute_score stable_argsort standard_reranker (PairList example_pairs) 2 512 None True False
     = Inr (Scores [7721, 8847, 5755])"
  using normalize_has_no_effect [of stable_argsort standard_reranker "PairList example_pairs"
      2 512 None False]
    example_sync_scores
  by simp

text \<open>
  C8. With \<open>use_dataloader=False\<close> the result of \<^verbatim>\<open>compute_score\<close> does not depend on
  the \<open>prompt\<close> argument (\<open>None\<close> included): the synchronous path replaces it with the
  fixed default instruction.
\<close>

theorem sync_path_ignores_prompt:
  "compute_score np_argsort self sentence_pairs batch_size max_length prompt1 normalize_arg False
     = compute_score np_argsort self sentence_pairs batch_size max_length prompt2 normalize_arg
         False"
  by (simp add: compute_score_def collect_all_def sync_scores_def)

theorem sync_path_ignores_prompt_witness:
  "compute_score stable_argsort standard_reranker (PairList example_pairs) 2 512
     (Some ''Does B answer A?'') False False
     = Inr (Scores [7721, 8847, 5755])"
  using sync_path_ignores_prompt [of stable_argsort standard_reranker "PairList example_pairs"
      2 512 "Some ''Does B answer A?''" False None]
    example_sync_scores
  by simp

text \<open>
  C9. On the empty list \<^verbatim>\<open>compute_score\<close> raises IndexError (from \<open>sentence_pairs[0]\<close>)
  and returns no score list, on both paths.
\<close>

theorem empty_input_raises:
  "compute_score np_argsort self (PairList []) batch_size max_length prompt normalize_arg
     use_dataloader = Inl IndexError \<and>
   compute_score np_argsort self (StrList []) batch_size max_length prompt normalize_arg
     use_dataloader = Inl IndexError"
  by (simp add: compute_score_def normalize_pairs_def)

theorem empty_input_raises_witness:
  "compute_score stable_argsort standard_reranker (PairList []) 16 512 None False False
     = Inl IndexError"
  using empty_input_raises [of stable_argsort standard_reranker 16 512 None False False]
  by simp

text \<open>
  C2. The two batching strategies are not equivalent in the code. On the example, with
  \<open>batch_size = 2\<close> and any sorting function that \<^verbatim>\<open>np.argsort\<close> may be, the data
  loader path raises IndexError (the collator reads \<open>data[2]\<close> of a batch of two
  samples) where the synchronous path returns three scores.
  \<open>dataloader_path_always_raises\<close> shows that the data loader path never returns scores;
  \<open>sync_item_exceeds_max_length\<close> and the claims about the sequence builder show that
  the two paths also build different sequences.
\<close>

theorem compute_score_paths_differ:
  assumes "valid_argsort np_argsort"
  shows "compute_score np_argsort standard_reranker (PairList example_pairs) 2 512 None False True
           = Inl IndexError \<and>
         compute_score np_argsort standard_reranker (PairList example_pairs) 2 512 None False
           False = Inr (Scores [7721, 8847, 5755])"
proof -
  have np: "normalize_pairs (PairList example_pairs) = Inr example_pairs"
    by (rule normalize_pairs_list) (simp add: example_pairs_def)
  note c = compute_score_distinct_keys [OF assms np example_keys_distinct]
  have "compute_score np_argsort standard_reranker (PairList example_pairs) 2 512 None False True
      = Inl IndexError"
    using c [of standard_reranker 2 512 None False True] example_dataloader by simp
  moreover
  have "compute_score np_argsort standard_reranker (PairList example_pairs) 2 512 None False False
      = Inr (Scores [7721, 8847, 5755])"
    using c [of standard_reranker 2 512 None False False] example_sync_scores by simp
  ultimately show ?thesis by simp
qed

theorem compute_score_paths_differ_witness:
  "valid_argsort stable_argsort \<and>
   compute_score stable_argsort standard_reranker (PairList example_pairs) 2 512 None False True
     = Inl IndexError \<and>
   compute_score stable_argsort standard_reranker (PairList example_pairs) 2 512 None False False
     = Inr (Scores [7721, 8847, 5755])"
  using compute_score_paths_differ [OF stable_argsort_valid] stable_argsort_valid
  by simp

end
